theory Spec2Isabelle
  imports Main "HOL-Library.Word"
begin

section \<open>Bytes, case mapping and header names\<close>

text \<open>
  Go strings are byte sequences; they are modelled as \<open>string\<close> (a list of 8-bit
  characters).
\<close>

definition isUpperByte :: "char \<Rightarrow> bool" where
  "isUpperByte c = (65 \<le> (of_char c :: int) \<and> (of_char c :: int) \<le> 90)"

definition isLowerByte :: "char \<Rightarrow> bool" where
  "isLowerByte c = (97 \<le> (of_char c :: int) \<and> (of_char c :: int) \<le> 122)"

definition lowerByte :: "char \<Rightarrow> char" where
  "lowerByte c = (if isUpperByte c then char_of ((of_char c :: int) + 32) else c)"

definition upperByte :: "char \<Rightarrow> char" where
  "upperByte c = (if isLowerByte c then char_of ((of_char c :: int) - 32) else c)"

text \<open>
  \<open>strings.ToLower\<close>: a string of ASCII bytes only is lowered byte by byte; any other
  string goes through \<open>strings.Map(unicode.ToLower, s)\<close>. The Unicode decoding and
  case tables are not part of the repository: that mapping is the parameter
  \<open>unicodeLower\<close>, and every statement holds whatever it is.
\<close>

type_synonym unicode_lower = "string \<Rightarrow> string"

definition isASCII :: "char \<Rightarrow> bool" where
  "isASCII c = ((of_char c :: int) < 128)"

definition strings_ToLower :: "unicode_lower \<Rightarrow> string \<Rightarrow> string" where
  "strings_ToLower unicodeLower s =
     (if list_all isASCII s then map lowerByte s else unicodeLower s)"

definition strings_HasPrefix :: "string \<Rightarrow> string \<Rightarrow> bool" where
  "strings_HasPrefix s p = (take (length p) s = p)"

text \<open>
  \<open>validHeaderFieldByte\<close> of \<open>net/textproto\<close>: the token characters of RFC 7230,
  that is \<open>! # $ % & ' * + - . ^ _ ` | ~\<close>, digits and letters.
\<close>

definition validHeaderFieldByte :: "char \<Rightarrow> bool" where
  "validHeaderFieldByte c =
     (let n = (of_char c :: int) in
      n \<in> set [33, 35, 36, 37, 38, 39, 42, 43, 45, 46, 94, 95, 96, 124, 126]
      \<or> (48 \<le> n \<and> n \<le> 57) \<or> (65 \<le> n \<and> n \<le> 90) \<or> (97 \<le> n \<and> n \<le> 122))"

text \<open>
  The loop of \<open>canonicalMIMEHeaderKey\<close>: the first letter and every letter after a
  hyphen are made upper case, every other letter lower case. \<open>upper\<close> is the loop's
  flag, set for the next byte when the byte just written is a hyphen.
\<close>

fun canonLoop :: "bool \<Rightarrow> string \<Rightarrow> string" where
  "canonLoop upper [] = []"
| "canonLoop upper (c # a) =
     (let c' = (if upper \<and> isLowerByte c then upperByte c
                else if \<not> upper \<and> isUpperByte c then lowerByte c
                else c)
      in c' # canonLoop (c' = CHR ''-'') a)"

text \<open>
  \<open>textproto.CanonicalMIMEHeaderKey\<close>: a key with a byte that is not a token
  character is returned unchanged, any other key is canonicalised.
\<close>

definition CanonicalMIMEHeaderKey :: "string \<Rightarrow> string" where
  "CanonicalMIMEHeaderKey s = (if list_all validHeaderFieldByte s then canonLoop True s else s)"

section \<open>The hop-by-hop denylist\<close>

definition hopByHopHeaders :: "string list" where
  "hopByHopHeaders =
     [''Connection'', ''Keep-Alive'', ''Proxy-Authenticate'', ''Proxy-Authorization'',
      ''Te'', ''Trailers'', ''Transfer-Encoding'', ''Upgrade'']"

text \<open>The \<open>for _, h := range hopByHopHeaders\<close> loop, on the lowered header name.\<close>

fun hopLoop :: "unicode_lower \<Rightarrow> string \<Rightarrow> string list \<Rightarrow> bool" where
  "hopLoop ul header [] = False"
| "hopLoop ul header (h # hs) =
     (if strings_ToLower ul h = header then True else hopLoop ul header hs)"

definition isHopByHopHeader :: "unicode_lower \<Rightarrow> string \<Rightarrow> bool" where
  "isHopByHopHeader ul header = hopLoop ul (strings_ToLower ul header) hopByHopHeaders"

section \<open>Header maps\<close>

text \<open>
  \<open>http.Header\<close> is \<open>map[string][]string\<close>. A header that the code builds is a map
  from keys to value lists; a header that the code ranges over is given as the list of
  its entries in the order the \<open>range\<close> loop visits them (Go leaves that order open, so
  the theorems hold for every list).
\<close>

type_synonym header = "string \<rightharpoonup> string list"

type_synonym header_entries = "(string \<times> string list) list"

definition Header_Set :: "string \<Rightarrow> string \<Rightarrow> header \<Rightarrow> header" where
  "Header_Set key v h = h(CanonicalMIMEHeaderKey key \<mapsto> [v])"

definition Header_Add :: "string \<Rightarrow> string \<Rightarrow> header \<Rightarrow> header" where
  "Header_Add key v h =
     (let k = CanonicalMIMEHeaderKey key
      in h(k \<mapsto> (case h k of None \<Rightarrow> [v] | Some vs \<Rightarrow> vs @ [v])))"

text \<open>The inner loop \<open>for _, value := range values { h.Add(name, value) }\<close>.\<close>

fun addValues :: "string \<Rightarrow> string list \<Rightarrow> header \<Rightarrow> header" where
  "addValues name [] h = h"
| "addValues name (v # values) h = addValues name values (Header_Add name v h)"

text \<open>
  The outer loop, the same in both directions and in both variants:
  \<open>for name, values := range src { if isHopByHopHeader(name) { continue }; ... }\<close>.
\<close>

fun copyHeaders :: "unicode_lower \<Rightarrow> header_entries \<Rightarrow> header \<Rightarrow> header" where
  "copyHeaders ul [] h = h"
| "copyHeaders ul ((name, values) # rest) h =
     (if isHopByHopHeader ul name then copyHeaders ul rest h
      else copyHeaders ul rest (addValues name values h))"

section \<open>The model of \<open>net/url\<close> that the forwarder relies on\<close>

text \<open>
  \<open>url.Parse\<close> and \<open>URL.String\<close> belong to the Go library, not to the repository.
  The forwarder calls \<open>url.Parse\<close> on \<open>BLOFIN_API_BASE + r.URL.Path\<close>, and
  \<open>http.NewRequest\<close> calls it again on \<open>targetURL.String()\<close>. The model follows the
  library's \<open>Parse\<close>, \<open>parse\<close>, \<open>getScheme\<close>, \<open>setPath\<close>, \<open>setFragment\<close>,
  \<open>unescape\<close>, \<open>escape\<close>, \<open>shouldEscape\<close>, \<open>validEncoded\<close>, \<open>EscapedPath\<close>,
  \<open>EscapedFragment\<close> and \<open>String\<close> step by step, in the modes the forwarder's URLs
  need (path, fragment and host). One part is left out and named: an authority that has
  user information, a port, an IP literal or an escape, for which \<open>parseAuthority\<close>
  answers \<open>AuthorityNotModelled\<close>; so the field \<open>User\<close> is always nil and is not in
  the record. The forwarder is only reached with a path that starts with a slash, and
  then the authority is the fixed host name.
\<close>

datatype error =
    InvalidControlCharacter
  | MissingProtocolScheme
  | FirstSegmentColon
  | EscapeError string
  | AuthorityNotModelled string
  | InvalidMethod string

record URL =
  Scheme :: string
  Opaque :: string
  Host :: string
  Path :: string
  RawPath :: string
  OmitHost :: bool
  ForceQuery :: bool
  RawQuery :: string
  Fragment :: string
  RawFragment :: string

definition emptyURL :: URL where
  "emptyURL = \<lparr>Scheme = [], Opaque = [], Host = [], Path = [], RawPath = [],
               OmitHost = False, ForceQuery = False, RawQuery = [], Fragment = [],
               RawFragment = []\<rparr>"

definition isLetterByte :: "char \<Rightarrow> bool" where
  "isLetterByte c = (isLowerByte c \<or> isUpperByte c)"

definition isDigitByte :: "char \<Rightarrow> bool" where
  "isDigitByte c = (48 \<le> (of_char c :: int) \<and> (of_char c :: int) \<le> 57)"

definition stringContainsCTLByte :: "string \<Rightarrow> bool" where
  "stringContainsCTLByte s =
     list_ex (\<lambda>b. (of_char b :: int) < 32 \<or> (of_char b :: int) = 127) s"

text \<open>\<open>strings.Cut\<close> with a one-byte separator: before, after, found.\<close>

definition strings_Cut :: "string \<Rightarrow> char \<Rightarrow> string \<times> string \<times> bool" where
  "strings_Cut s sep =
     (if sep \<in> set s
      then (takeWhile (\<lambda>c. c \<noteq> sep) s, tl (dropWhile (\<lambda>c. c \<noteq> sep) s), True)
      else (s, [], False))"

text \<open>
  \<open>getScheme\<close>: \<open>seen\<close> holds the bytes before the loop index, so \<open>i == 0\<close> is
  \<open>seen = []\<close>.
\<close>

fun getSchemeLoop :: "string \<Rightarrow> string \<Rightarrow> string \<Rightarrow> error + (string \<times> string)" where
  "getSchemeLoop rawURL seen [] = Inr ([], rawURL)"
| "getSchemeLoop rawURL seen (c # cs) =
     (if isLetterByte c then getSchemeLoop rawURL (seen @ [c]) cs
      else if isDigitByte c \<or> c = CHR ''+'' \<or> c = CHR ''-'' \<or> c = CHR ''.'' then
        (if seen = [] then Inr ([], rawURL) else getSchemeLoop rawURL (seen @ [c]) cs)
      else if c = CHR '':'' then
        (if seen = [] then Inl MissingProtocolScheme else Inr (seen, cs))
      else Inr ([], rawURL))"

definition getScheme :: "string \<Rightarrow> error + (string \<times> string)" where
  "getScheme rawURL = getSchemeLoop rawURL [] rawURL"

definition ishex :: "char \<Rightarrow> bool" where
  "ishex c = (isDigitByte c
     \<or> (97 \<le> (of_char c :: int) \<and> (of_char c :: int) \<le> 102)
     \<or> (65 \<le> (of_char c :: int) \<and> (of_char c :: int) \<le> 70))"

definition unhex :: "char \<Rightarrow> int" where
  "unhex c =
     (if isDigitByte c then of_char c - 48
      else if 97 \<le> (of_char c :: int) \<and> (of_char c :: int) \<le> 102 then of_char c - 97 + 10
      else if 65 \<le> (of_char c :: int) \<and> (of_char c :: int) \<le> 70 then of_char c - 65 + 10
      else 0)"

text \<open>
  \<open>unescape\<close> in path or fragment mode: a \<open>%\<close> must be followed by two hex digits and
  stands for that byte; the error carries at most the three offending bytes.
\<close>

fun unescape :: "string \<Rightarrow> error + string" where
  "unescape [] = Inr []"
| "unescape (c # s) =
     (if c = CHR ''%'' then
        (case s of
           h1 # h2 # rest \<Rightarrow>
             (if ishex h1 \<and> ishex h2 then
                (case unescape rest of
                   Inl e \<Rightarrow> Inl e
                 | Inr t \<Rightarrow> Inr (char_of (unhex h1 * 16 + unhex h2) # t))
              else Inl (EscapeError (take 3 (c # s))))
         | _ \<Rightarrow> Inl (EscapeError (take 3 (c # s))))
      else (case unescape s of Inl e \<Rightarrow> Inl e | Inr t \<Rightarrow> Inr (c # t)))"

text \<open>
  \<open>shouldEscape\<close>: whether a byte must be written as \<open>%XX\<close> in the given part of a
  URL. Letters and digits never are; the host part allows some more bytes; of the
  reserved bytes the path escapes only \<open>?\<close> and the fragment none.
\<close>

datatype encoding = encodePath | encodeHost | encodeFragment

definition shouldEscape :: "char \<Rightarrow> encoding \<Rightarrow> bool" where
  "shouldEscape c mode =
     (if isLowerByte c \<or> isUpperByte c \<or> isDigitByte c then False
      else if mode = encodeHost \<and> c \<in> set (''!$&()*+,;=:[]<>'' @ [CHR 0x27, CHR 0x22]) then False
      else if c \<in> set ''-_.~'' then False
      else if c \<in> set ''$&+,/:;=?@'' then
        (case mode of
           encodePath \<Rightarrow> c = CHR ''?''
         | encodeFragment \<Rightarrow> False
         | encodeHost \<Rightarrow> True)
      else if mode = encodeFragment \<and> c \<in> set ''!()*'' then False
      else True)"

definition upperhex :: "int \<Rightarrow> char" where
  "upperhex k = (if k < 10 then char_of (48 + k) else char_of (55 + k))"

fun escape :: "encoding \<Rightarrow> string \<Rightarrow> string" where
  "escape mode [] = []"
| "escape mode (c # s) =
     (if shouldEscape c mode
      then CHR ''%'' # upperhex ((of_char c :: int) div 16) # upperhex ((of_char c :: int) mod 16)
           # escape mode s
      else c # escape mode s)"

definition validEncoded :: "string \<Rightarrow> encoding \<Rightarrow> bool" where
  "validEncoded s mode =
     list_all (\<lambda>c. c \<in> set (''!$&()*+,;=:@[]%'' @ [CHR 0x27]) \<or> \<not> shouldEscape c mode) s"

text \<open>
  \<open>setPath\<close> and \<open>setFragment\<close>: the decoded text, and the raw text only when it is
  not the default encoding of the decoded one.
\<close>

definition setPath :: "string \<Rightarrow> URL \<Rightarrow> error + URL" where
  "setPath p u =
     (case unescape p of
        Inl e \<Rightarrow> Inl e
      | Inr path \<Rightarrow> Inr (u\<lparr>Path := path, RawPath := (if escape encodePath path = p then [] else p)\<rparr>))"

definition setFragment :: "string \<Rightarrow> URL \<Rightarrow> error + URL" where
  "setFragment f u =
     (case unescape f of
        Inl e \<Rightarrow> Inl e
      | Inr frag \<Rightarrow>
          Inr (u\<lparr>Fragment := frag, RawFragment := (if escape encodeFragment frag = f then [] else f)\<rparr>))"

definition plainHostByte :: "char \<Rightarrow> bool" where
  "plainHostByte c = (isLetterByte c \<or> isDigitByte c \<or> c = CHR ''-'' \<or> c = CHR ''.'')"

definition parseAuthority :: "string \<Rightarrow> error + string" where
  "parseAuthority authority =
     (if list_all plainHostByte authority then Inr authority
      else Inl (AuthorityNotModelled authority))"

text \<open>\<open>parse(rawURL, viaRequest = false)\<close>.\<close>

definition parse :: "unicode_lower \<Rightarrow> string \<Rightarrow> error + URL" where
  "parse ul rawURL =
     (if stringContainsCTLByte rawURL then Inl InvalidControlCharacter
      else if rawURL = ''*'' then Inr (emptyURL\<lparr>Path := ''*''\<rparr>)
      else
        (case getScheme rawURL of
           Inl e \<Rightarrow> Inl e
         | Inr (scheme0, rest0) \<Rightarrow>
             (let scheme = strings_ToLower ul scheme0;
                  force = (rest0 \<noteq> [] \<and> last rest0 = CHR ''?''
                           \<and> count_list rest0 (CHR ''?'') = 1);
                  rest1 = (if force then butlast rest0 else fst (strings_Cut rest0 (CHR ''?'')));
                  query = (if force then [] else fst (snd (strings_Cut rest0 (CHR ''?''))));
                  url = emptyURL\<lparr>Scheme := scheme, ForceQuery := force, RawQuery := query\<rparr>
              in
              if \<not> strings_HasPrefix rest1 ''/'' \<and> scheme \<noteq> [] then Inr (url\<lparr>Opaque := rest1\<rparr>)
              else if \<not> strings_HasPrefix rest1 ''/''
                      \<and> CHR '':'' \<in> set (fst (strings_Cut rest1 (CHR ''/'')))
                then Inl FirstSegmentColon
              else if (scheme \<noteq> [] \<or> \<not> strings_HasPrefix rest1 ''///'')
                      \<and> strings_HasPrefix rest1 ''//'' then
                (let after = drop 2 rest1;
                     authority = takeWhile (\<lambda>c. c \<noteq> CHR ''/'') after;
                     rest2 = dropWhile (\<lambda>c. c \<noteq> CHR ''/'') after
                 in case parseAuthority authority of
                      Inl e \<Rightarrow> Inl e
                    | Inr host \<Rightarrow> setPath rest2 (url\<lparr>Host := host\<rparr>))
              else if scheme \<noteq> [] \<and> strings_HasPrefix rest1 ''/''
                then setPath rest1 (url\<lparr>OmitHost := True\<rparr>)
              else setPath rest1 url)))"

text \<open>\<open>url.Parse\<close>: the fragment is cut off first, the rest goes to \<open>parse\<close>.\<close>

definition url_Parse :: "unicode_lower \<Rightarrow> string \<Rightarrow> error + URL" where
  "url_Parse ul rawURL =
     (case strings_Cut rawURL (CHR ''#'') of
        (u, frag, _) \<Rightarrow>
          (case parse ul u of
             Inl e \<Rightarrow> Inl e
           | Inr url \<Rightarrow> (if frag = [] then Inr url else setFragment frag url)))"

text \<open>
  \<open>EscapedPath\<close> and \<open>EscapedFragment\<close>: the raw text when it is a valid encoding of
  the decoded one, the default encoding otherwise.
\<close>

definition EscapedPath :: "URL \<Rightarrow> string" where
  "EscapedPath u =
     (if RawPath u \<noteq> [] \<and> validEncoded (RawPath u) encodePath
         \<and> unescape (RawPath u) = Inr (Path u)
      then RawPath u
      else if Path u = ''*'' then ''*''
      else escape encodePath (Path u))"

definition EscapedFragment :: "URL \<Rightarrow> string" where
  "EscapedFragment u =
     (if RawFragment u \<noteq> [] \<and> validEncoded (RawFragment u) encodeFragment
         \<and> unescape (RawFragment u) = Inr (Fragment u)
      then RawFragment u
      else escape encodeFragment (Fragment u))"

text \<open>\<open>URL.String\<close>, for a URL without user information.\<close>

definition URL_String :: "URL \<Rightarrow> string" where
  "URL_String u =
     (let buf0 = (if Scheme u \<noteq> [] then Scheme u @ '':'' else [])
      in (if Opaque u \<noteq> [] then buf0 @ Opaque u
          else
            (let buf1 = buf0
                   @ (if Scheme u \<noteq> [] \<or> Host u \<noteq> [] then
                        (if OmitHost u \<and> Host u = [] then []
                         else (if Host u \<noteq> [] \<or> Path u \<noteq> [] then ''//'' else [])
                              @ (if Host u \<noteq> [] then escape encodeHost (Host u) else []))
                      else []);
                 path = EscapedPath u;
                 buf2 = buf1
                   @ (case path of
                        [] \<Rightarrow> []
                      | c # _ \<Rightarrow> (if c \<noteq> CHR ''/'' \<and> Host u \<noteq> [] then ''/'' else []));
                 buf3 = buf2
                   @ (if buf2 = [] \<and> CHR '':'' \<in> set (fst (strings_Cut path (CHR ''/'')))
                      then ''./'' else [])
             in buf3 @ path))
         @ (if ForceQuery u \<or> RawQuery u \<noteq> [] then CHR ''?'' # RawQuery u else [])
         @ (if Fragment u \<noteq> [] then CHR ''#'' # EscapedFragment u else []))"

text \<open>\<open>removeEmptyPort\<close>: a host that ends in a colon with no port loses the colon.\<close>

definition lastIndex :: "char \<Rightarrow> string \<Rightarrow> int" where
  "lastIndex c s =
     (if c \<in> set s then int (length s) - 1 - int (length (takeWhile (\<lambda>x. x \<noteq> c) (rev s)))
      else - 1)"

definition removeEmptyPort :: "string \<Rightarrow> string" where
  "removeEmptyPort host =
     (if lastIndex (CHR '':'') host > lastIndex (CHR '']'') host \<and> last host = CHR '':''
      then butlast host else host)"

section \<open>Requests, response writers and the outside world\<close>

text \<open>
  The inbound request as a handler sees it: \<open>r.Method\<close>, \<open>r.URL.Path\<close>,
  \<open>r.URL.RawQuery\<close>, \<open>r.Header\<close>, \<open>r.Body\<close>, and whether the protocol is at least
  HTTP/1.1. \<open>r.Context()\<close> is the constant \<open>RequestContext\<close>.
\<close>

record request =
  r_Method :: string
  r_Path :: string
  r_RawQuery :: string
  r_Header :: header_entries
  r_Body :: string
  r_Proto11 :: bool

text \<open>
  Contexts: the background context, the inbound request's context, and
  \<open>context.WithTimeout(parent, d)\<close>. A context is cancelled when the context it
  derives from is cancelled; durations are in nanoseconds, as \<open>time.Duration\<close>.
\<close>

datatype go_context = Background | RequestContext | WithTimeout go_context int

definition time_Second :: int where
  "time_Second = 1000000000"

fun derivesFrom :: "go_context \<Rightarrow> go_context \<Rightarrow> bool" where
  "derivesFrom Background parent = (parent = Background)"
| "derivesFrom RequestContext parent = (parent = RequestContext)"
| "derivesFrom (WithTimeout c d) parent = (parent = WithTimeout c d \<or> derivesFrom c parent)"

text \<open>The shortest timeout on the way to the root context, if there is one.\<close>

fun ctxTimeout :: "go_context \<Rightarrow> int option" where
  "ctxTimeout Background = None"
| "ctxTimeout RequestContext = None"
| "ctxTimeout (WithTimeout c d) =
     (case ctxTimeout c of None \<Rightarrow> Some d | Some d' \<Rightarrow> Some (min d d'))"

text \<open>
  The outbound request built by \<open>http.NewRequest\<close> / \<open>http.NewRequestWithContext\<close>,
  and the client that sends it. Of \<open>http.Client\<close> only \<open>Timeout\<close> matters here
  (zero means no timeout).
\<close>

record proxy_request =
  p_ctx :: go_context
  p_Method :: string
  p_URL :: URL
  p_Header :: header
  p_Body :: string

record client =
  Timeout :: int

text \<open>The time an upstream call may take: the client's timeout and the context's.\<close>

definition callBound :: "client \<Rightarrow> proxy_request \<Rightarrow> int option" where
  "callBound c pr =
     (case ctxTimeout (p_ctx pr) of
        None \<Rightarrow> (if Timeout c = 0 then None else Some (Timeout c))
      | Some d \<Rightarrow> (if Timeout c = 0 then Some d else Some (min d (Timeout c))))"

text \<open>
  The upstream's answer: status, headers, the bytes that \<open>io.Copy\<close> can read from the
  body, and the error that ends the body early, if any.
\<close>

record upstream_response =
  StatusCode :: int
  u_Header :: header_entries
  u_Body :: string
  u_BodyErr :: "string option"

text \<open>
  What a handler cannot compute: the upstream (\<open>client.Do\<close>, which fails with an error
  text or answers), the process environment, the clock (already formatted as RFC 3339) and
  the runtime's counters. The two memory figures are the \<open>%.2f\<close> renderings. The
  library's Unicode lower-case mapping, which \<open>strings.ToLower\<close> uses on strings that are
  not ASCII, is carried here too.
\<close>

record env =
  upstream :: "client \<Rightarrow> proxy_request \<Rightarrow> string + upstream_response"
  unicodeLower :: unicode_lower
  os_Getenv :: "string \<Rightarrow> string"
  time_Now :: string
  NumGoroutine :: int
  NumCPU :: int
  NumGC :: int
  MemAllocMB :: string
  MemSysMB :: string

text \<open>
  A \<open>http.ResponseWriter\<close>: the header map the handler edits, the status once
  \<open>WriteHeader\<close> has run, the header map as it was at that moment (later edits are not
  sent), the body written so far, the informational status codes sent before the final
  one, and the status code on which \<open>WriteHeader\<close> panicked, if it did.
\<close>

record response_writer =
  w_Header :: header
  w_status :: "int option"
  w_sent :: header
  w_body :: string
  w_informational :: "int list"
  w_panic :: "int option"

definition newResponseWriter :: response_writer where
  "newResponseWriter =
     \<lparr>w_Header = Map.empty, w_status = None, w_sent = Map.empty, w_body = [],
      w_informational = [], w_panic = None\<rparr>"

definition w_Set :: "string \<Rightarrow> string \<Rightarrow> response_writer \<Rightarrow> response_writer" where
  "w_Set key v w = w\<lparr>w_Header := Header_Set key v (w_Header w)\<rparr>"

text \<open>
  \<open>WriteHeader\<close>: a second call does nothing; a code outside 100 to 999 panics
  (\<open>checkWriteHeaderCode\<close>); a code from 100 to 199 other than 101 is sent as an
  informational response and leaves the final status open; any other code is the status
  of the response.
\<close>

definition WriteHeader :: "int \<Rightarrow> response_writer \<Rightarrow> response_writer" where
  "WriteHeader code w =
     (if w_status w \<noteq> None then w
      else if code < 100 \<or> code > 999 then w\<lparr>w_panic := Some code\<rparr>
      else if 100 \<le> code \<and> code \<le> 199 \<and> code \<noteq> 101
        then w\<lparr>w_informational := w_informational w @ [code]\<rparr>
      else w\<lparr>w_status := Some code, w_sent := w_Header w\<rparr>)"

definition Write :: "string \<Rightarrow> response_writer \<Rightarrow> response_writer" where
  "Write bytes w = (let w' = WriteHeader 200 w in w'\<lparr>w_body := w_body w' @ bytes\<rparr>)"

text \<open>
  The response the client receives when the handler has returned. When the handler has
  panicked the server sends no response at all.
\<close>

record response =
  status :: int
  headers :: header
  body :: string

definition finish :: "response_writer \<Rightarrow> response" where
  "finish w =
     (case w_status w of
        None \<Rightarrow> \<lparr>status = 200, headers = w_Header w, body = w_body w\<rparr>
      | Some code \<Rightarrow> \<lparr>status = code, headers = w_sent w, body = w_body w\<rparr>)"

definition delivered :: "response_writer \<Rightarrow> response option" where
  "delivered w = (case w_panic w of None \<Rightarrow> Some (finish w) | Some code \<Rightarrow> None)"

text \<open>\<open>http.Header.Get\<close>: the first value under the canonical key, or the empty string.\<close>

definition Header_Get :: "header \<Rightarrow> string \<Rightarrow> string" where
  "Header_Get h key =
     (case h (CanonicalMIMEHeaderKey key) of None \<Rightarrow> [] | Some [] \<Rightarrow> [] | Some (v # _) \<Rightarrow> v)"

definition Header_Values :: "header \<Rightarrow> string \<Rightarrow> string list" where
  "Header_Values h k = (case h k of None \<Rightarrow> [] | Some vs \<Rightarrow> vs)"

text \<open>
  The values that a copy loop adds under key \<open>k\<close>: those of every entry that is not
  hop-by-hop and whose canonical key is \<open>k\<close>, in the loop's order.
\<close>

definition forwarded :: "unicode_lower \<Rightarrow> header_entries \<Rightarrow> string \<Rightarrow> string list" where
  "forwarded ul src k =
     concat (map snd (filter (\<lambda>e. \<not> isHopByHopHeader ul (fst e)
                                  \<and> CanonicalMIMEHeaderKey (fst e) = k) src))"

text \<open>
  The canonical form in the words of the specification: the first letter and each letter
  after a hyphen is upper case, no other letter is. \<open>start\<close> says that the next byte
  is the first one or follows a hyphen.
\<close>

fun mimeCanonicalForm :: "bool \<Rightarrow> string \<Rightarrow> bool" where
  "mimeCanonicalForm start [] = True"
| "mimeCanonicalForm start (c # s) =
     ((if start then \<not> isLowerByte c else \<not> isUpperByte c)
      \<and> mimeCanonicalForm (c = CHR ''-'') s)"

definition newline :: string where
  "newline = [CHR 0x0A]"

text \<open>\<open>http.Error\<close> and \<open>http.NotFound\<close>.\<close>

definition http_Error :: "response_writer \<Rightarrow> string \<Rightarrow> int \<Rightarrow> response_writer" where
  "http_Error w msg code =
     Write (msg @ newline)
       (WriteHeader code
          (w_Set ''X-Content-Type-Options'' ''nosniff''
             (w_Set ''Content-Type'' ''text/plain; charset=utf-8'' w)))"

definition http_NotFound :: "response_writer \<Rightarrow> response_writer" where
  "http_NotFound w = http_Error w ''404 page not found'' 404"

text \<open>\<open>io.Copy(w, resp.Body)\<close>: the bytes read are written, the read error is returned.\<close>

definition io_Copy :: "response_writer \<Rightarrow> upstream_response \<Rightarrow> response_writer \<times> string option" where
  "io_Copy w resp = ((if u_Body resp = [] then w else Write (u_Body resp) w), u_BodyErr resp)"

text \<open>
  \<open>http.NewRequestWithContext\<close>: an empty method means \<open>GET\<close>, the method must be a
  token, the URL text is parsed, an empty port is taken off the host, and the request
  starts with an empty header map.
\<close>

definition validMethod :: "string \<Rightarrow> bool" where
  "validMethod m = (m \<noteq> [] \<and> list_all validHeaderFieldByte m)"

definition http_NewRequestWithContext ::
  "unicode_lower \<Rightarrow> go_context \<Rightarrow> string \<Rightarrow> string \<Rightarrow> string \<Rightarrow> error + proxy_request" where
  "http_NewRequestWithContext ul ctx method0 url b =
     (let method = (if method0 = [] then ''GET'' else method0)
      in if \<not> validMethod method then Inl (InvalidMethod method)
         else
           (case url_Parse ul url of
              Inl err \<Rightarrow> Inl err
            | Inr u \<Rightarrow>
                Inr \<lparr>p_ctx = ctx, p_Method = method,
                     p_URL = u\<lparr>Host := removeEmptyPort (Host u)\<rparr>,
                     p_Header = Map.empty, p_Body = b\<rparr>))"

definition http_NewRequest ::
  "unicode_lower \<Rightarrow> string \<Rightarrow> string \<Rightarrow> string \<Rightarrow> error + proxy_request" where
  "http_NewRequest ul method url b = http_NewRequestWithContext ul Background method url b"

text \<open>Lines written with \<open>log.Printf\<close>, with their arguments.\<close>

datatype log_line =
    ApiRouteDetected string
  | ProxyRequestFailed string
  | CopyBodyFailed string
  | Forwarded string string string int

text \<open>
  What running a handler leaves behind: the response writer, the log lines and the
  upstream calls made, in order.
\<close>

record outcome =
  out_w :: response_writer
  out_log :: "log_line list"
  out_calls :: "(client \<times> proxy_request) list"

definition quoted :: "string \<Rightarrow> string" where
  "quoted s = CHR 0x22 # s @ [CHR 0x22]"

text \<open>The verb \<open>%d\<close>: the decimal digits, most significant first, after the sign.\<close>

function decimal :: "int \<Rightarrow> string" where
  "decimal n =
     (if n < 10 then [char_of (48 + n)] else decimal (n div 10) @ [char_of (48 + n mod 10)])"
  by pat_completeness auto
termination
  by (relation "measure nat") auto

definition fmt_d :: "int \<Rightarrow> string" where
  "fmt_d i = (if i < 0 then CHR ''-'' # decimal (- i) else decimal i)"

section \<open>The simple variant (\<open>main.go\<close>)\<close>

definition BLOFIN_API_BASE :: string where
  "BLOFIN_API_BASE = ''https://openapi.blofin.com''"

type_synonym handlerFunc = "env \<Rightarrow> response_writer \<Rightarrow> request \<Rightarrow> outcome"

definition setCorsHeaders :: "response_writer \<Rightarrow> response_writer" where
  "setCorsHeaders w =
     w_Set ''Access-Control-Max-Age'' ''86400''
       (w_Set ''Access-Control-Allow-Headers''
          ''Content-Type, Authorization, ACCESS-KEY, ACCESS-SIGN, ACCESS-TIMESTAMP, ACCESS-NONCE, ACCESS-PASSPHRASE, BROKER-ID''
          (w_Set ''Access-Control-Allow-Methods'' ''GET, POST, PUT, PATCH, DELETE, OPTIONS''
             (w_Set ''Access-Control-Allow-Origin'' ''*'' w)))"

definition corsMiddleware :: "handlerFunc \<Rightarrow> handlerFunc" where
  "corsMiddleware next env w r =
     (let w1 = setCorsHeaders w
      in if r_Method r = ''OPTIONS''
         then \<lparr>out_w = WriteHeader 200 w1, out_log = [], out_calls = []\<rparr>
         else next env w1 r)"

definition blofinProxy :: handlerFunc where
  "blofinProxy env w r =
     (let apiPath = r_Path r
      in case url_Parse (unicodeLower env) (BLOFIN_API_BASE @ apiPath) of
           Inl err \<Rightarrow> \<lparr>out_w = http_Error w ''Invalid URL'' 400, out_log = [], out_calls = []\<rparr>
         | Inr parsed \<Rightarrow>
             (let targetURL = parsed\<lparr>RawQuery := r_RawQuery r\<rparr>
              in case http_NewRequest (unicodeLower env) (r_Method r) (URL_String targetURL)
                        (r_Body r) of
                   Inl err \<Rightarrow>
                     \<lparr>out_w = http_Error w ''Failed to create proxy request'' 500,
                      out_log = [], out_calls = []\<rparr>
                 | Inr req0 \<Rightarrow>
                     (let proxyReq = req0\<lparr>p_Header :=
                            copyHeaders (unicodeLower env) (r_Header r) (p_Header req0)\<rparr>;
                          client = \<lparr>Timeout = 30 * time_Second\<rparr>
                      in case upstream env client proxyReq of
                           Inl err \<Rightarrow>
                             \<lparr>out_w = http_Error w ''Proxy request failed'' 502,
                              out_log = [ProxyRequestFailed err],
                              out_calls = [(client, proxyReq)]\<rparr>
                         | Inr resp \<Rightarrow>
                             (let w1 = w\<lparr>w_Header :=
                                    copyHeaders (unicodeLower env) (u_Header resp) (w_Header w)\<rparr>;
                                  w2 = WriteHeader (StatusCode resp) w1
                              in if w_panic w2 \<noteq> None
                                 then \<lparr>out_w = w2, out_log = [], out_calls = [(client, proxyReq)]\<rparr>
                                 else
                                   (let (w3, copyErr) = io_Copy w2 resp
                                    in \<lparr>out_w = w3,
                                        out_log =
                                          (case copyErr of
                                             None \<Rightarrow> []
                                           | Some e \<Rightarrow> [CopyBodyFailed e])
                                          @ [Forwarded (r_Method r) (r_Path r)
                                               (URL_String targetURL) (StatusCode resp)],
                                        out_calls = [(client, proxyReq)]\<rparr>)))))"

definition healthHandler :: handlerFunc where
  "healthHandler env w r =
     \<lparr>out_w =
        Write (''{'' @ quoted ''status'' @ '':'' @ quoted ''ok'' @ '','' @ quoted ''timestamp''
               @ '':'' @ quoted (time_Now env) @ ''}'')
          (w_Set ''Content-Type'' ''application/json'' w),
      out_log = [], out_calls = []\<rparr>"

definition rootHandler :: handlerFunc where
  "rootHandler env w r =
     (if r_Path r = ''/'' then
        \<lparr>out_w =
           Write (''{'' @ quoted ''message'' @ '':'' @ quoted ''Blofin CORS Proxy'' @ '',''
                  @ quoted ''version'' @ '':'' @ quoted ''1.0'' @ '',''
                  @ quoted ''endpoints'' @ '':['' @ quoted ''/health'' @ '','' @ quoted ''/api/*''
                  @ ''],'' @ quoted ''timestamp'' @ '':'' @ quoted (time_Now env) @ ''}'')
             (w_Set ''Content-Type'' ''application/json'' w),
         out_log = [], out_calls = []\<rparr>
      else if strings_HasPrefix (r_Path r) ''/api/'' then
        (let res = blofinProxy env w r
         in res\<lparr>out_log := ApiRouteDetected (r_Path r) # out_log res\<rparr>)
      else \<lparr>out_w = http_NotFound w, out_log = [], out_calls = []\<rparr>)"

section \<open>The optimized variant\<close>

text \<open>
  The second program of the repository registers its handlers on the same kind of
  multiplexer, shares one \<open>http.Client\<close> between all requests and counts the requests
  in the global \<open>requestCount\<close> (an \<open>int64\<close>, so the increment wraps). Its handlers take
  the counter and return it. \<open>isHopByHopHeader\<close> and the CORS headers are the same text as
  in the simple variant.
\<close>

type_synonym int64 = "64 word"

type_synonym handlerFuncOpt = "env \<Rightarrow> int64 \<Rightarrow> response_writer \<Rightarrow> request \<Rightarrow> outcome \<times> int64"

definition httpClient :: client where
  "httpClient = \<lparr>Timeout = 30 * time_Second\<rparr>"

definition corsMiddlewareOpt :: "handlerFuncOpt \<Rightarrow> handlerFuncOpt" where
  "corsMiddlewareOpt next env requestCount w r =
     (let w1 = setCorsHeaders w
      in if r_Method r = ''OPTIONS''
         then (\<lparr>out_w = WriteHeader 200 w1, out_log = [], out_calls = []\<rparr>, requestCount)
         else next env requestCount w1 r)"

definition debugEnabled :: "env \<Rightarrow> bool" where
  "debugEnabled env = (os_Getenv env ''DEBUG'' = ''true'')"

definition blofinProxyOptimized :: handlerFuncOpt where
  "blofinProxyOptimized env requestCount0 w r =
     (let requestCount = requestCount0 + 1
      in case url_Parse (unicodeLower env) (BLOFIN_API_BASE @ r_Path r) of
           Inl err \<Rightarrow>
             (\<lparr>out_w = http_Error w ''Invalid URL'' 400, out_log = [], out_calls = []\<rparr>,
              requestCount)
         | Inr parsed \<Rightarrow>
             (let targetURL = parsed\<lparr>RawQuery := r_RawQuery r\<rparr>;
                  ctx = WithTimeout RequestContext (25 * time_Second)
              in case http_NewRequestWithContext (unicodeLower env) ctx (r_Method r)
                        (URL_String targetURL) (r_Body r) of
                   Inl err \<Rightarrow>
                     (\<lparr>out_w = http_Error w ''Failed to create proxy request'' 500,
                       out_log = [], out_calls = []\<rparr>,
                      requestCount)
                 | Inr req0 \<Rightarrow>
                     (let proxyReq = req0\<lparr>p_Header :=
                            copyHeaders (unicodeLower env) (r_Header r) (p_Header req0)\<rparr>
                      in case upstream env httpClient proxyReq of
                           Inl err \<Rightarrow>
                             (\<lparr>out_w = http_Error w ''Proxy request failed'' 502,
                               out_log = (if debugEnabled env then [ProxyRequestFailed err] else []),
                               out_calls = [(httpClient, proxyReq)]\<rparr>,
                              requestCount)
                         | Inr resp \<Rightarrow>
                             (let w1 = w\<lparr>w_Header :=
                                    copyHeaders (unicodeLower env) (u_Header resp) (w_Header w)\<rparr>;
                                  w2 = WriteHeader (StatusCode resp) w1
                              in if w_panic w2 \<noteq> None
                                 then (\<lparr>out_w = w2, out_log = [],
                                        out_calls = [(httpClient, proxyReq)]\<rparr>,
                                       requestCount)
                                 else
                                   (let (w3, copyErr) = io_Copy w2 resp
                                    in (\<lparr>out_w = w3,
                                         out_log =
                                           (case copyErr of
                                              None \<Rightarrow> []
                                            | Some e \<Rightarrow>
                                                (if debugEnabled env then [CopyBodyFailed e] else [])),
                                         out_calls = [(httpClient, proxyReq)]\<rparr>,
                                        requestCount))))))"

definition healthHandlerOpt :: handlerFuncOpt where
  "healthHandlerOpt env requestCount w r =
     (let count = requestCount
      in (\<lparr>out_w =
            Write (''{'' @ quoted ''status'' @ '':'' @ quoted ''ok'' @ '','' @ quoted ''timestamp''
                   @ '':'' @ quoted (time_Now env) @ '','' @ quoted ''requests_served'' @ '':''
                   @ fmt_d (sint count) @ '','' @ quoted ''goroutines'' @ '':''
                   @ fmt_d (NumGoroutine env) @ ''}'')
              (w_Set ''Content-Type'' ''application/json'' w),
           out_log = [], out_calls = []\<rparr>,
          requestCount))"

definition metricsIndent :: string where
  "metricsIndent = newline @ replicate 3 (CHR 0x09)"

definition metricsHandler :: handlerFuncOpt where
  "metricsHandler env requestCount w r =
     (\<lparr>out_w =
         Write (''{'' @ metricsIndent @ quoted ''requests_total'' @ '': '' @ fmt_d (sint requestCount)
                @ '','' @ metricsIndent @ quoted ''goroutines'' @ '': '' @ fmt_d (NumGoroutine env)
                @ '','' @ metricsIndent @ quoted ''memory_alloc_mb'' @ '': '' @ MemAllocMB env
                @ '','' @ metricsIndent @ quoted ''memory_sys_mb'' @ '': '' @ MemSysMB env
                @ '','' @ metricsIndent @ quoted ''gc_runs'' @ '': '' @ fmt_d (NumGC env)
                @ '','' @ metricsIndent @ quoted ''cpu_cores'' @ '': '' @ fmt_d (NumCPU env)
                @ newline @ replicate 2 (CHR 0x09) @ ''}'')
           (w_Set ''Content-Type'' ''application/json'' w),
        out_log = [], out_calls = []\<rparr>,
      requestCount)"

section \<open>Routing: the model of \<open>http.ServeMux\<close>\<close>

text \<open>
  Both programs register their handlers on \<open>http.DefaultServeMux\<close>. The multiplexer is
  library code; the model follows \<open>ServeMux.ServeHTTP\<close>, \<open>Handler\<close>, \<open>match\<close>,
  \<open>shouldRedirectRLocked\<close> and \<open>cleanPath\<close> of the Go release the repository builds
  with, for patterns without a host part (the repository has no other). A request for
  \<open>*\<close> is answered before routing: \<open>OPTIONS *\<close> by the server's own handler, any
  other method with 400.
\<close>

fun splitOn :: "char \<Rightarrow> string \<Rightarrow> string list" where
  "splitOn sep [] = [[]]"
| "splitOn sep (c # s) =
     (if c = sep then [] # splitOn sep s
      else (case splitOn sep s of [] \<Rightarrow> [[c]] | seg # segs \<Rightarrow> (c # seg) # segs))"

text \<open>
  \<open>path.Clean\<close> on a rooted path: empty and \<open>.\<close> elements go, \<open>..\<close> removes the
  element before it (nothing at the root). \<open>out\<close> holds the kept elements, last first.
\<close>

fun cleanSegments :: "string list \<Rightarrow> string list \<Rightarrow> string list" where
  "cleanSegments out [] = rev out"
| "cleanSegments out (seg # segs) =
     (if seg = [] \<or> seg = ''.'' then cleanSegments out segs
      else if seg = ''..'' then cleanSegments (case out of [] \<Rightarrow> [] | _ # out' \<Rightarrow> out') segs
      else cleanSegments (seg # out) segs)"

definition path_Clean :: "string \<Rightarrow> string" where
  "path_Clean p =
     (case cleanSegments [] (splitOn (CHR ''/'') p) of
        [] \<Rightarrow> ''/''
      | segs \<Rightarrow> concat (map (\<lambda>seg. CHR ''/'' # seg) segs))"

definition cleanPath :: "string \<Rightarrow> string" where
  "cleanPath p0 =
     (if p0 = [] then ''/''
      else
        (let p = (if hd p0 \<noteq> CHR ''/'' then CHR ''/'' # p0 else p0);
             np = path_Clean p
         in if last p = CHR ''/'' \<and> np \<noteq> ''/'' then np @ ''/'' else np))"

text \<open>
  \<open>match\<close>: an exact pattern wins; otherwise the longest pattern that ends in a slash
  and is a prefix of the path.
\<close>

fun longestPrefix :: "(string \<times> 'h) list \<Rightarrow> string \<Rightarrow> (string \<times> 'h) option \<Rightarrow> (string \<times> 'h) option" where
  "longestPrefix [] path best = best"
| "longestPrefix ((pat, h) # es) path best =
     (if pat \<noteq> [] \<and> last pat = CHR ''/'' \<and> strings_HasPrefix path pat
         \<and> (case best of None \<Rightarrow> True | Some (b, _) \<Rightarrow> length b < length pat)
      then longestPrefix es path (Some (pat, h))
      else longestPrefix es path best)"

definition mux_match :: "(string \<times> 'h) list \<Rightarrow> string \<Rightarrow> 'h option" where
  "mux_match m path =
     (case map_of m path of
        Some h \<Rightarrow> Some h
      | None \<Rightarrow> map_option snd (longestPrefix m path None))"

definition shouldRedirect :: "(string \<times> 'h) list \<Rightarrow> string \<Rightarrow> bool" where
  "shouldRedirect m path =
     (case map_of m path of
        Some _ \<Rightarrow> False
      | None \<Rightarrow>
          (if path = [] then False
           else (case map_of m (path @ ''/'') of
                   Some _ \<Rightarrow> last path \<noteq> CHR ''/''
                 | None \<Rightarrow> False)))"

datatype 'h route = Found 'h | Redirect string | NoHandler

definition ServeMux_Handler :: "(string \<times> 'h) list \<Rightarrow> string \<Rightarrow> string \<Rightarrow> 'h route" where
  "ServeMux_Handler m method urlPath =
     (if method = ''CONNECT'' then
        (if shouldRedirect m urlPath then Redirect (urlPath @ ''/'')
         else (case mux_match m urlPath of None \<Rightarrow> NoHandler | Some h \<Rightarrow> Found h))
      else
        (let path = cleanPath urlPath
         in if shouldRedirect m path then Redirect (path @ ''/'')
            else if path \<noteq> urlPath then Redirect path
            else (case mux_match m urlPath of None \<Rightarrow> NoHandler | Some h \<Rightarrow> Found h)))"

text \<open>
  The responses the library writes itself. Of a redirect only the status and the
  \<open>Location\<close> header are modelled (the target is not escaped here, and the short HTML
  body that a \<open>GET\<close> gets is left out).
\<close>

definition redirectResponse :: "request \<Rightarrow> string \<Rightarrow> response_writer" where
  "redirectResponse r target =
     WriteHeader 301
       (w_Set ''Location''
          (target @ (if r_RawQuery r = [] then [] else CHR ''?'' # r_RawQuery r))
          newResponseWriter)"

definition globalOptionsResponse :: response_writer where
  "globalOptionsResponse = w_Set ''Content-Length'' ''0'' newResponseWriter"

definition badRequestResponse :: "request \<Rightarrow> response_writer" where
  "badRequestResponse r =
     WriteHeader 400
       (if r_Proto11 r then w_Set ''Connection'' ''close'' newResponseWriter else newResponseWriter)"

definition libraryOutcome :: "response_writer \<Rightarrow> outcome" where
  "libraryOutcome w = \<lparr>out_w = w, out_log = [], out_calls = []\<rparr>"

text \<open>The registrations of \<open>main\<close> in the simple variant, and the server around them.\<close>

definition simpleMux :: "(string \<times> handlerFunc) list" where
  "simpleMux = [(''/health'', corsMiddleware healthHandler), (''/'', corsMiddleware rootHandler)]"

definition serveSimple :: "env \<Rightarrow> request \<Rightarrow> outcome" where
  "serveSimple env r =
     (if r_Path r = ''*'' then
        (if r_Method r = ''OPTIONS'' then libraryOutcome globalOptionsResponse
         else libraryOutcome (badRequestResponse r))
      else
        (case ServeMux_Handler simpleMux (r_Method r) (r_Path r) of
           Found h \<Rightarrow> h env newResponseWriter r
         | Redirect target \<Rightarrow> libraryOutcome (redirectResponse r target)
         | NoHandler \<Rightarrow> libraryOutcome (http_NotFound newResponseWriter)))"

text \<open>The registrations of \<open>main\<close> in the optimized variant: there is no \<open>/\<close> pattern.\<close>

definition optimizedMux :: "(string \<times> handlerFuncOpt) list" where
  "optimizedMux =
     [(''/health'', corsMiddlewareOpt healthHandlerOpt),
      (''/metrics'', corsMiddlewareOpt metricsHandler),
      (''/api/'', corsMiddlewareOpt blofinProxyOptimized)]"

definition serveOptimized :: "env \<Rightarrow> int64 \<Rightarrow> request \<Rightarrow> outcome \<times> int64" where
  "serveOptimized env requestCount r =
     (if r_Path r = ''*'' then
        (if r_Method r = ''OPTIONS'' then (libraryOutcome globalOptionsResponse, requestCount)
         else (libraryOutcome (badRequestResponse r), requestCount))
      else
        (case ServeMux_Handler optimizedMux (r_Method r) (r_Path r) of
           Found h \<Rightarrow> h env requestCount newResponseWriter r
         | Redirect target \<Rightarrow> (libraryOutcome (redirectResponse r target), requestCount)
         | NoHandler \<Rightarrow> (libraryOutcome (http_NotFound newResponseWriter), requestCount)))"

section \<open>Predicates and inputs used in the statements\<close>

text \<open>
  The denylist as the specification writes it (with \<open>TE\<close> where the code has \<open>Te\<close>),
  matched without regard to the case of the letters \<open>A\<close> to \<open>Z\<close>.
\<close>

definition denylisted :: "string \<Rightarrow> bool" where
  "denylisted name =
     (map lowerByte name \<in> set (map (map lowerByte)
        [''Connection'', ''Keep-Alive'', ''Proxy-Authenticate'', ''Proxy-Authorization'',
         ''TE'', ''Trailers'', ''Transfer-Encoding'', ''Upgrade'']))"

text \<open>A key is absent from a response writer: from its header map and from what was sent.\<close>

definition keyAbsent :: "string \<Rightarrow> response_writer \<Rightarrow> bool" where
  "keyAbsent k w = (w_Header w k = None \<and> w_sent w k = None)"

text \<open>
  Concrete surroundings: an upstream that cannot be reached and one that answers with
  hop-by-hop headers of its own, with the debug flag unset or set. The concrete requests
  and responses have ASCII bytes only, so the Unicode case mapping is never applied to
  them; the identity stands in its place.
\<close>

definition failingEnv :: env where
  "failingEnv =
     \<lparr>upstream = (\<lambda>c pr. Inl ''dial tcp: i/o timeout''), unicodeLower = (\<lambda>s. s),
      os_Getenv = (\<lambda>k. []),
      time_Now = ''2024-01-01T00:00:00Z'', NumGoroutine = 3, NumCPU = 2, NumGC = 1,
      MemAllocMB = ''1.00'', MemSysMB = ''2.00''\<rparr>"

definition failingDebugEnv :: env where
  "failingDebugEnv = failingEnv\<lparr>os_Getenv := (\<lambda>k. if k = ''DEBUG'' then ''true'' else [])\<rparr>"

definition answeringEnv :: env where
  "answeringEnv =
     failingEnv\<lparr>upstream := (\<lambda>c pr. Inr
        \<lparr>StatusCode = 200,
         u_Header = [(''Content-Type'', [''application/json'']),
                     (''Connection'', [''keep-alive'']),
                     (''Transfer-Encoding'', [''chunked''])],
         u_Body = ''{}'', u_BodyErr = None\<rparr>)\<rparr>"

definition exampleRequest :: "string \<Rightarrow> string \<Rightarrow> request" where
  "exampleRequest method path =
     \<lparr>r_Method = method, r_Path = path, r_RawQuery = ''instId=BTC-USDT'',
      r_Header = [(''Access-Key'', [''abc'']), (''X-Trace'', [''a'', ''b'', ''a'']),
                  (''Connection'', [''keep-alive'']), (''Te'', [''trailers'']),
                  (''x-request-id'', [''42''])],
      r_Body = [], r_Proto11 = True\<rparr>"

text \<open>
  Characters that break URL parsing. In a path: control bytes, and \<open>#\<close>, \<open>?\<close> and
  \<open>%\<close>, which \<open>url.Parse\<close> reads as the start of a fragment, of a query and of an
  escape when it parses the already decoded path again. In a query: control bytes and
  \<open>#\<close>.
\<close>

definition pathSafe :: "string \<Rightarrow> bool" where
  "pathSafe s =
     (\<not> stringContainsCTLByte s \<and> CHR ''#'' \<notin> set s \<and> CHR ''?'' \<notin> set s \<and> CHR ''%'' \<notin> set s)"

definition querySafe :: "string \<Rightarrow> bool" where
  "querySafe s = (\<not> stringContainsCTLByte s \<and> CHR ''#'' \<notin> set s)"

text \<open>
  A request enters the forwarder of the optimized variant when the multiplexer hands it
  to the \<open>/api/\<close> pattern and the middleware lets it through: the path begins with
  \<open>/api/\<close>, it is in cleaned form unless the method is \<open>CONNECT\<close> (for which the
  multiplexer does not clean), and the method is not \<open>OPTIONS\<close>.
\<close>

definition entersForwarder :: "request \<Rightarrow> bool" where
  "entersForwarder r =
     (strings_HasPrefix (r_Path r) ''/api/''
      \<and> (r_Method r = ''CONNECT'' \<or> cleanPath (r_Path r) = r_Path r)
      \<and> r_Method r \<noteq> ''OPTIONS'')"

text \<open>
  The CORS headers of a response, read with \<open>Header.Get\<close>: the allow-origin wildcard and
  the declared method set, and the full set of four that the middleware writes.
\<close>

definition corsDeclared :: "header \<Rightarrow> bool" where
  "corsDeclared h =
     (Header_Get h ''Access-Control-Allow-Origin'' = ''*''
      \<and> Header_Get h ''Access-Control-Allow-Methods'' = ''GET, POST, PUT, PATCH, DELETE, OPTIONS'')"

definition corsHeadersSet :: "header \<Rightarrow> bool" where
  "corsHeadersSet h =
     (corsDeclared h
      \<and> Header_Get h ''Access-Control-Allow-Headers'' =
          ''Content-Type, Authorization, ACCESS-KEY, ACCESS-SIGN, ACCESS-TIMESTAMP, ACCESS-NONCE, ACCESS-PASSPHRASE, BROKER-ID''
      \<and> Header_Get h ''Access-Control-Max-Age'' = ''86400'')"

text \<open>The answer to a preflight request: 200, no body, the CORS headers.\<close>

definition preflightResponse :: "response \<Rightarrow> bool" where
  "preflightResponse resp = (status resp = 200 \<and> body resp = [] \<and> corsHeadersSet (headers resp))"

text \<open>
  The first value under a key, in a header map and in a response writer (in the header
  map being edited and, once the header is written, in the header map that was sent).
\<close>

definition hasFirst :: "string \<Rightarrow> string \<Rightarrow> header \<Rightarrow> bool" where
  "hasFirst k v h = (case h k of None \<Rightarrow> False | Some [] \<Rightarrow> False | Some (x # _) \<Rightarrow> x = v)"

definition keepsFirst :: "string \<Rightarrow> string \<Rightarrow> response_writer \<Rightarrow> bool" where
  "keepsFirst k v w =
     (hasFirst k v (w_Header w) \<and> (w_status w = None \<or> hasFirst k v (w_sent w)))"

section \<open>Facts about case mapping\<close>

lemma lowerByte_upperByte: "lowerByte (upperByte c) = lowerByte c"
proof (cases "isLowerByte c")
  case False
  then show ?thesis by (simp add: upperByte_def)
next
  case True
  define n :: int where "n = of_char c"
  have range: "97 \<le> n" "n \<le> 122"
    using True by (simp_all add: isLowerByte_def n_def)
  have up: "upperByte c = char_of (n - 32)"
    using True by (simp add: upperByte_def n_def)
  have code: "(of_char (char_of (n - 32)) :: int) = n - 32"
    using range by simp
  have "65 \<le> n - 32 \<and> n - 32 \<le> 90"
    using range by arith
  then have "isUpperByte (char_of (n - 32))"
    by (simp only: isUpperByte_def code)
  then have "lowerByte (char_of (n - 32)) = char_of (n - 32 + 32)"
    by (simp only: lowerByte_def code if_True)
  also have "\<dots> = char_of n"
    using range by simp
  also have "\<dots> = c"
    by (simp add: n_def)
  finally have left: "lowerByte (upperByte c) = c"
    by (simp add: up)
  have "lowerByte c = c"
    using range by (simp add: lowerByte_def isUpperByte_def n_def [symmetric])
  with left show ?thesis by simp
qed

lemma lowerByte_idem: "lowerByte (lowerByte c) = lowerByte c"
  by (simp add: lowerByte_def isUpperByte_def)

section \<open>Facts about canonical keys\<close>

lemma upperByte_of_lower:
  assumes "isLowerByte c"
  shows "isUpperByte (upperByte c)" and "\<not> isLowerByte (upperByte c)"
proof -
  define n :: int where "n = of_char c"
  have range: "97 \<le> n" "n \<le> 122"
    using assms by (simp_all add: isLowerByte_def n_def)
  have up: "upperByte c = char_of (n - 32)"
    using assms by (simp add: upperByte_def n_def)
  have code: "(of_char (char_of (n - 32)) :: int) = n - 32"
    using range by simp
  have "65 \<le> n - 32 \<and> n - 32 \<le> 90"
    using range by arith
  then show "isUpperByte (upperByte c)"
    by (simp only: isUpperByte_def up code)
  have "\<not> 97 \<le> n - 32"
    using range by arith
  then show "\<not> isLowerByte (upperByte c)"
    by (simp only: isLowerByte_def up code) simp
qed

lemma lowerByte_of_upper:
  assumes "isUpperByte c"
  shows "isLowerByte (lowerByte c)" and "\<not> isUpperByte (lowerByte c)"
proof -
  define n :: int where "n = of_char c"
  have range: "65 \<le> n" "n \<le> 90"
    using assms by (simp_all add: isUpperByte_def n_def)
  have low: "lowerByte c = char_of (n + 32)"
    using assms by (simp add: lowerByte_def n_def)
  have code: "(of_char (char_of (n + 32)) :: int) = n + 32"
    using range by simp
  have "97 \<le> n + 32 \<and> n + 32 \<le> 122"
    using range by arith
  then show "isLowerByte (lowerByte c)"
    by (simp only: isLowerByte_def low code)
  have "\<not> n + 32 \<le> 90"
    using range by arith
  then show "\<not> isUpperByte (lowerByte c)"
    by (simp only: isUpperByte_def low code) simp
qed

lemma letters_are_tokens:
  "isUpperByte c \<Longrightarrow> validHeaderFieldByte c"
  "isLowerByte c \<Longrightarrow> validHeaderFieldByte c"
  by (simp_all add: validHeaderFieldByte_def isUpperByte_def isLowerByte_def Let_def)

lemma canonLoop_canonical_form: "mimeCanonicalForm u (canonLoop u s)"
  by (induction s arbitrary: u)
     (auto simp: Let_def upperByte_of_lower lowerByte_of_upper)

lemma canonLoop_idem: "canonLoop u (canonLoop u s) = canonLoop u s"
  by (induction s arbitrary: u)
     (auto simp: Let_def upperByte_of_lower lowerByte_of_upper)

lemma canonLoop_valid:
  "list_all validHeaderFieldByte s \<Longrightarrow> list_all validHeaderFieldByte (canonLoop u s)"
  by (induction s arbitrary: u)
     (auto simp: Let_def upperByte_of_lower lowerByte_of_upper letters_are_tokens)

lemma lower_canonLoop: "map lowerByte (canonLoop u s) = map lowerByte s"
  by (induction s arbitrary: u)
     (simp_all add: Let_def lowerByte_upperByte lowerByte_idem)

lemma token_ascii: "validHeaderFieldByte c \<Longrightarrow> isASCII c"
  by (auto simp: validHeaderFieldByte_def isASCII_def Let_def)

lemma tokens_ascii: "list_all validHeaderFieldByte s \<Longrightarrow> list_all isASCII s"
  by (induction s) (simp_all add: token_ascii)

lemma ToLower_Canonical:
  "strings_ToLower ul (CanonicalMIMEHeaderKey s) = strings_ToLower ul s"
proof (cases "list_all validHeaderFieldByte s")
  case True
  then have "list_all isASCII s" and "list_all isASCII (canonLoop True s)"
    by (simp_all add: tokens_ascii canonLoop_valid)
  then show ?thesis
    using True by (simp add: CanonicalMIMEHeaderKey_def strings_ToLower_def lower_canonLoop)
next
  case False
  then show ?thesis
    by (simp add: CanonicalMIMEHeaderKey_def)
qed

lemma isHopByHop_Canonical:
  "isHopByHopHeader ul (CanonicalMIMEHeaderKey s) = isHopByHopHeader ul s"
  by (simp add: isHopByHopHeader_def ToLower_Canonical)

lemma Canonical_idem:
  "CanonicalMIMEHeaderKey (CanonicalMIMEHeaderKey s) = CanonicalMIMEHeaderKey s"
  by (simp add: CanonicalMIMEHeaderKey_def canonLoop_idem canonLoop_valid)

section \<open>What the copy loops leave in a header map\<close>

lemma addValues_lookup:
  "addValues name vs h k =
     (if k = CanonicalMIMEHeaderKey name \<and> vs \<noteq> [] then Some (Header_Values h k @ vs) else h k)"
  by (induction vs arbitrary: h)
     (auto simp: Header_Add_def Header_Values_def Let_def split: option.splits)

lemma copyHeaders_lookup:
  "copyHeaders ul src h k =
     (if forwarded ul src k = [] then h k else Some (Header_Values h k @ forwarded ul src k))"
proof (induction src arbitrary: h)
  case Nil
  show ?case by (simp add: forwarded_def)
next
  case (Cons e src)
  obtain name vs where e: "e = (name, vs)" by (cases e)
  show ?case
    unfolding e
    by (auto simp: Cons.IH forwarded_def addValues_lookup Header_Values_def split: option.splits)
qed

lemma forwarded_hop: "isHopByHopHeader ul k \<Longrightarrow> forwarded ul src k = []"
  by (induction src) (auto simp: forwarded_def isHopByHop_Canonical)

lemma copyHeaders_hop: "isHopByHopHeader ul k \<Longrightarrow> copyHeaders ul src h k = h k"
  by (simp add: copyHeaders_lookup forwarded_hop)

lemma forwarded_single:
  assumes "distinct (map (\<lambda>e. CanonicalMIMEHeaderKey (fst e)) src)"
    and "(name, vs) \<in> set src" and "\<not> isHopByHopHeader ul name"
  shows "forwarded ul src (CanonicalMIMEHeaderKey name) = vs"
  using assms
proof (induction src)
  case Nil
  then show ?case by simp
next
  case (Cons e src)
  show ?case
  proof (cases "e = (name, vs)")
    case True
    have notin: "CanonicalMIMEHeaderKey name \<notin> (\<lambda>e. CanonicalMIMEHeaderKey (fst e)) ` set src"
      using Cons.prems(1) True by simp
    have "\<forall>e' \<in> set src. CanonicalMIMEHeaderKey (fst e') \<noteq> CanonicalMIMEHeaderKey name"
    proof
      fix e' assume "e' \<in> set src"
      then have mem: "CanonicalMIMEHeaderKey (fst e') \<in> (\<lambda>e. CanonicalMIMEHeaderKey (fst e)) ` set src"
        by (rule imageI)
      show "CanonicalMIMEHeaderKey (fst e') \<noteq> CanonicalMIMEHeaderKey name"
      proof
        assume "CanonicalMIMEHeaderKey (fst e') = CanonicalMIMEHeaderKey name"
        with mem notin show False by (simp only:)
      qed
    qed
    then have "filter (\<lambda>e. \<not> isHopByHopHeader ul (fst e)
          \<and> CanonicalMIMEHeaderKey (fst e) = CanonicalMIMEHeaderKey name) src = []"
      by (auto simp: filter_empty_conv)
    then show ?thesis
      using True Cons.prems(3) by (simp add: forwarded_def)
  next
    case False
    then have mem: "(name, vs) \<in> set src"
      using Cons.prems(2) by simp
    then have "CanonicalMIMEHeaderKey name \<in> (\<lambda>e. CanonicalMIMEHeaderKey (fst e)) ` set src"
      by (rule rev_image_eqI) simp
    moreover have "CanonicalMIMEHeaderKey (fst e) \<notin> (\<lambda>e. CanonicalMIMEHeaderKey (fst e)) ` set src"
      using Cons.prems(1) by simp
    ultimately have "CanonicalMIMEHeaderKey (fst e) \<noteq> CanonicalMIMEHeaderKey name"
      by (metis (no_types))
    moreover have "forwarded ul src (CanonicalMIMEHeaderKey name) = vs"
      using Cons.IH Cons.prems mem by simp
    ultimately show ?thesis
      by (simp add: forwarded_def)
  qed
qed

lemma forwarded_noncanonical:
  "name \<noteq> CanonicalMIMEHeaderKey name \<Longrightarrow> forwarded ul src name = []"
proof -
  assume neq: "name \<noteq> CanonicalMIMEHeaderKey name"
  have "\<forall>e \<in> set src. CanonicalMIMEHeaderKey (fst e) \<noteq> name"
  proof
    fix e assume "e \<in> set src"
    show "CanonicalMIMEHeaderKey (fst e) \<noteq> name"
    proof
      assume eq: "CanonicalMIMEHeaderKey (fst e) = name"
      then have "CanonicalMIMEHeaderKey name = name"
        using Canonical_idem [of "fst e"] by simp
      with neq show False by simp
    qed
  qed
  then show ?thesis
    by (auto simp: forwarded_def filter_empty_conv)
qed

lemma forwarded_present:
  assumes "(name, vs) \<in> set src" and "\<not> isHopByHopHeader ul name" and "vs \<noteq> []"
  shows "forwarded ul src (CanonicalMIMEHeaderKey name) \<noteq> []"
  using assms by (induction src) (auto simp: forwarded_def)

section \<open>The denylist of the specification and of the code\<close>

lemma hopLoop_mem: "hopLoop ul header hs = (header \<in> set (map (strings_ToLower ul) hs))"
  by (induction hs) auto

lemma ToLower_ascii: "list_all isASCII s \<Longrightarrow> strings_ToLower ul s = map lowerByte s"
  by (simp add: strings_ToLower_def)

lemma denylist_ascii:
  "list_all (list_all isASCII)
     [''Connection'', ''Keep-Alive'', ''Proxy-Authenticate'', ''Proxy-Authorization'',
      ''TE'', ''Trailers'', ''Transfer-Encoding'', ''Upgrade'']"
  "list_all (list_all isASCII) hopByHopHeaders"
  by code_simp+

lemma denylist_lowerByte:
  "map (map lowerByte)
     [''Connection'', ''Keep-Alive'', ''Proxy-Authenticate'', ''Proxy-Authorization'',
      ''TE'', ''Trailers'', ''Transfer-Encoding'', ''Upgrade'']
   = map (map lowerByte) hopByHopHeaders"
  by code_simp

lemma map_ToLower_ascii:
  "list_all (list_all isASCII) hs \<Longrightarrow> map (strings_ToLower ul) hs = map (map lowerByte) hs"
  by (induction hs) (simp_all add: ToLower_ascii)

lemma isHop_ascii:
  "list_all isASCII k \<Longrightarrow>
   isHopByHopHeader ul k = (map lowerByte k \<in> set (map (map lowerByte) hopByHopHeaders))"
  by (simp only: isHopByHopHeader_def hopLoop_mem ToLower_ascii
      map_ToLower_ascii [OF denylist_ascii(2)])

lemma denylisted_ascii_iff: "list_all isASCII name \<Longrightarrow> isHopByHopHeader ul name = denylisted name"
  by (simp only: isHop_ascii denylisted_def denylist_lowerByte)

lemma isASCII_lowerByte: "isASCII (lowerByte c) = isASCII c"
proof (cases "isUpperByte c")
  case True
  then have "(of_char c + 32 :: int) mod 256 = of_char c + 32"
    by (simp add: isUpperByte_def)
  with True show ?thesis
    by (simp add: lowerByte_def isASCII_def isUpperByte_def of_char_of)
next
  case False
  then show ?thesis
    by (simp add: lowerByte_def)
qed

lemma ascii_lowered: "list_all isASCII (map lowerByte s) = list_all isASCII s"
  by (induction s) (simp_all add: isASCII_lowerByte)

lemma in_lowered:
  assumes "x \<in> set (map (map lowerByte) l)" and "list_all (list_all isASCII) l"
  shows "list_all isASCII x"
proof -
  from assms(1) obtain e where "e \<in> set l" and x: "x = map lowerByte e"
    by auto
  then have "list_all isASCII e"
    using assms(2) by (simp add: list_all_iff)
  then show ?thesis
    by (simp only: x ascii_lowered)
qed

lemma denylisted_ascii: "denylisted name \<Longrightarrow> list_all isASCII name"
proof -
  assume "denylisted name"
  then have "map lowerByte name \<in> set (map (map lowerByte)
      [''Connection'', ''Keep-Alive'', ''Proxy-Authenticate'', ''Proxy-Authorization'',
       ''TE'', ''Trailers'', ''Transfer-Encoding'', ''Upgrade''])"
    by (simp only: denylisted_def)
  then have "list_all isASCII (map lowerByte name)"
    using denylist_ascii(1) by (rule in_lowered)
  then show ?thesis
    by (simp only: ascii_lowered)
qed

lemma denylisted_hop: "denylisted name \<Longrightarrow> isHopByHopHeader ul name"
  using denylisted_ascii denylisted_ascii_iff by blast

lemma token_hop_iff:
  "list_all validHeaderFieldByte name \<Longrightarrow> isHopByHopHeader ul name = denylisted name"
  using tokens_ascii denylisted_ascii_iff by blast

section \<open>The upstream calls of the two forwarders\<close>

lemma blofinProxy_cases:
  obtains
    (bad_url) e where
      "url_Parse (unicodeLower env) (BLOFIN_API_BASE @ r_Path r) = Inl e"
      "blofinProxy env w r = \<lparr>out_w = http_Error w ''Invalid URL'' 400, out_log = [], out_calls = []\<rparr>"
  | (bad_request) parsed e where
      "url_Parse (unicodeLower env) (BLOFIN_API_BASE @ r_Path r) = Inr parsed"
      "http_NewRequest (unicodeLower env) (r_Method r) (URL_String (parsed\<lparr>RawQuery := r_RawQuery r\<rparr>)) (r_Body r) = Inl e"
      "blofinProxy env w r =
         \<lparr>out_w = http_Error w ''Failed to create proxy request'' 500, out_log = [], out_calls = []\<rparr>"
  | (failed) parsed req0 err where
      "url_Parse (unicodeLower env) (BLOFIN_API_BASE @ r_Path r) = Inr parsed"
      "http_NewRequest (unicodeLower env) (r_Method r) (URL_String (parsed\<lparr>RawQuery := r_RawQuery r\<rparr>)) (r_Body r) = Inr req0"
      "upstream env \<lparr>Timeout = 30 * time_Second\<rparr>
         (req0\<lparr>p_Header := copyHeaders (unicodeLower env) (r_Header r) (p_Header req0)\<rparr>) = Inl err"
      "blofinProxy env w r =
         \<lparr>out_w = http_Error w ''Proxy request failed'' 502,
          out_log = [ProxyRequestFailed err],
          out_calls = [(\<lparr>Timeout = 30 * time_Second\<rparr>,
                        req0\<lparr>p_Header := copyHeaders (unicodeLower env) (r_Header r) (p_Header req0)\<rparr>)]\<rparr>"
  | (panicked) parsed req0 resp where
      "url_Parse (unicodeLower env) (BLOFIN_API_BASE @ r_Path r) = Inr parsed"
      "http_NewRequest (unicodeLower env) (r_Method r) (URL_String (parsed\<lparr>RawQuery := r_RawQuery r\<rparr>)) (r_Body r) = Inr req0"
      "upstream env \<lparr>Timeout = 30 * time_Second\<rparr>
         (req0\<lparr>p_Header := copyHeaders (unicodeLower env) (r_Header r) (p_Header req0)\<rparr>) = Inr resp"
      "w_panic (WriteHeader (StatusCode resp)
          (w\<lparr>w_Header := copyHeaders (unicodeLower env) (u_Header resp) (w_Header w)\<rparr>)) \<noteq> None"
      "blofinProxy env w r =
         \<lparr>out_w = WriteHeader (StatusCode resp)
                   (w\<lparr>w_Header := copyHeaders (unicodeLower env) (u_Header resp) (w_Header w)\<rparr>),
          out_log = [],
          out_calls = [(\<lparr>Timeout = 30 * time_Second\<rparr>,
                        req0\<lparr>p_Header := copyHeaders (unicodeLower env) (r_Header r) (p_Header req0)\<rparr>)]\<rparr>"
  | (relayed) parsed req0 resp where
      "url_Parse (unicodeLower env) (BLOFIN_API_BASE @ r_Path r) = Inr parsed"
      "http_NewRequest (unicodeLower env) (r_Method r) (URL_String (parsed\<lparr>RawQuery := r_RawQuery r\<rparr>)) (r_Body r) = Inr req0"
      "upstream env \<lparr>Timeout = 30 * time_Second\<rparr>
         (req0\<lparr>p_Header := copyHeaders (unicodeLower env) (r_Header r) (p_Header req0)\<rparr>) = Inr resp"
      "w_panic (WriteHeader (StatusCode resp)
          (w\<lparr>w_Header := copyHeaders (unicodeLower env) (u_Header resp) (w_Header w)\<rparr>)) = None"
      "blofinProxy env w r =
         \<lparr>out_w = fst (io_Copy (WriteHeader (StatusCode resp)
                     (w\<lparr>w_Header := copyHeaders (unicodeLower env) (u_Header resp) (w_Header w)\<rparr>)) resp),
          out_log = (case u_BodyErr resp of None \<Rightarrow> [] | Some e \<Rightarrow> [CopyBodyFailed e])
                    @ [Forwarded (r_Method r) (r_Path r) (URL_String (parsed\<lparr>RawQuery := r_RawQuery r\<rparr>))
                         (StatusCode resp)],
          out_calls = [(\<lparr>Timeout = 30 * time_Second\<rparr>,
                        req0\<lparr>p_Header := copyHeaders (unicodeLower env) (r_Header r) (p_Header req0)\<rparr>)]\<rparr>"
proof (cases "url_Parse (unicodeLower env) (BLOFIN_API_BASE @ r_Path r)")
  case (Inl e)
  then show ?thesis
    using bad_url by (simp add: blofinProxy_def)
next
  case parsed: (Inr parsed)
  show ?thesis
  proof (cases "http_NewRequest (unicodeLower env) (r_Method r) (URL_String (parsed\<lparr>RawQuery := r_RawQuery r\<rparr>)) (r_Body r)")
    case (Inl e)
    then show ?thesis
      using bad_request parsed by (simp add: blofinProxy_def)
  next
    case req0: (Inr req0)
    show ?thesis
    proof (cases "upstream env \<lparr>Timeout = 30 * time_Second\<rparr>
         (req0\<lparr>p_Header := copyHeaders (unicodeLower env) (r_Header r) (p_Header req0)\<rparr>)")
      case (Inl err)
      then show ?thesis
        using failed parsed req0 by (simp add: blofinProxy_def)
    next
      case resp: (Inr resp)
      show ?thesis
      proof (cases "w_panic (WriteHeader (StatusCode resp)
          (w\<lparr>w_Header := copyHeaders (unicodeLower env) (u_Header resp) (w_Header w)\<rparr>)) = None")
        case True
        then show ?thesis
          using relayed [of parsed req0 resp] parsed req0 resp
          by (simp add: blofinProxy_def io_Copy_def)
      next
        case False
        then show ?thesis
          using panicked [of parsed req0 resp] parsed req0 resp
          by (simp add: blofinProxy_def)
      qed
    qed
  qed
qed

lemma blofinProxyOptimized_cases:
  obtains
    (bad_url) e where
      "url_Parse (unicodeLower env) (BLOFIN_API_BASE @ r_Path r) = Inl e"
      "blofinProxyOptimized env n w r = (\<lparr>out_w = http_Error w ''Invalid URL'' 400, out_log = [], out_calls = []\<rparr>, n + 1)"
  | (bad_request) parsed e where
      "url_Parse (unicodeLower env) (BLOFIN_API_BASE @ r_Path r) = Inr parsed"
      "http_NewRequestWithContext (unicodeLower env) (WithTimeout RequestContext (25 * time_Second)) (r_Method r) (URL_String (parsed\<lparr>RawQuery := r_RawQuery r\<rparr>)) (r_Body r) = Inl e"
      "blofinProxyOptimized env n w r =
         (\<lparr>out_w = http_Error w ''Failed to create proxy request'' 500, out_log = [], out_calls = []\<rparr>,
          n + 1)"
  | (failed) parsed req0 err where
      "url_Parse (unicodeLower env) (BLOFIN_API_BASE @ r_Path r) = Inr parsed"
      "http_NewRequestWithContext (unicodeLower env) (WithTimeout RequestContext (25 * time_Second)) (r_Method r) (URL_String (parsed\<lparr>RawQuery := r_RawQuery r\<rparr>)) (r_Body r) = Inr req0"
      "upstream env httpClient
         (req0\<lparr>p_Header := copyHeaders (unicodeLower env) (r_Header r) (p_Header req0)\<rparr>) = Inl err"
      "blofinProxyOptimized env n w r =
         (\<lparr>out_w = http_Error w ''Proxy request failed'' 502,
          out_log = (if debugEnabled env then [ProxyRequestFailed err] else []),
          out_calls = [(httpClient,
                        req0\<lparr>p_Header := copyHeaders (unicodeLower env) (r_Header r) (p_Header req0)\<rparr>)]\<rparr>,
          n + 1)"
  | (panicked) parsed req0 resp where
      "url_Parse (unicodeLower env) (BLOFIN_API_BASE @ r_Path r) = Inr parsed"
      "http_NewRequestWithContext (unicodeLower env) (WithTimeout RequestContext (25 * time_Second)) (r_Method r) (URL_String (parsed\<lparr>RawQuery := r_RawQuery r\<rparr>)) (r_Body r) = Inr req0"
      "upstream env httpClient
         (req0\<lparr>p_Header := copyHeaders (unicodeLower env) (r_Header r) (p_Header req0)\<rparr>) = Inr resp"
      "w_panic (WriteHeader (StatusCode resp)
          (w\<lparr>w_Header := copyHeaders (unicodeLower env) (u_Header resp) (w_Header w)\<rparr>)) \<noteq> None"
      "blofinProxyOptimized env n w r =
         (\<lparr>out_w = WriteHeader (StatusCode resp)
                   (w\<lparr>w_Header := copyHeaders (unicodeLower env) (u_Header resp) (w_Header w)\<rparr>),
           out_log = [],
           out_calls = [(httpClient,
                        req0\<lparr>p_Header := copyHeaders (unicodeLower env) (r_Header r) (p_Header req0)\<rparr>)]\<rparr>,
          n + 1)"
  | (relayed) parsed req0 resp where
      "url_Parse (unicodeLower env) (BLOFIN_API_BASE @ r_Path r) = Inr parsed"
      "http_NewRequestWithContext (unicodeLower env) (WithTimeout RequestContext (25 * time_Second)) (r_Method r) (URL_String (parsed\<lparr>RawQuery := r_RawQuery r\<rparr>)) (r_Body r) = Inr req0"
      "upstream env httpClient
         (req0\<lparr>p_Header := copyHeaders (unicodeLower env) (r_Header r) (p_Header req0)\<rparr>) = Inr resp"
      "w_panic (WriteHeader (StatusCode resp)
          (w\<lparr>w_Header := copyHeaders (unicodeLower env) (u_Header resp) (w_Header w)\<rparr>)) = None"
      "blofinProxyOptimized env n w r =
         (\<lparr>out_w = fst (io_Copy (WriteHeader (StatusCode resp)
                     (w\<lparr>w_Header := copyHeaders (unicodeLower env) (u_Header resp) (w_Header w)\<rparr>)) resp),
          out_log = (case u_BodyErr resp of
                       None \<Rightarrow> []
                     | Some e \<Rightarrow> (if debugEnabled env then [CopyBodyFailed e] else [])),
          out_calls = [(httpClient,
                        req0\<lparr>p_Header := copyHeaders (unicodeLower env) (r_Header r) (p_Header req0)\<rparr>)]\<rparr>,
          n + 1)"
proof (cases "url_Parse (unicodeLower env) (BLOFIN_API_BASE @ r_Path r)")
  case (Inl e)
  then show ?thesis
    using bad_url by (simp add: blofinProxyOptimized_def)
next
  case parsed: (Inr parsed)
  show ?thesis
  proof (cases "http_NewRequestWithContext (unicodeLower env) (WithTimeout RequestContext (25 * time_Second)) (r_Method r) (URL_String (parsed\<lparr>RawQuery := r_RawQuery r\<rparr>)) (r_Body r)")
    case (Inl e)
    then show ?thesis
      using bad_request parsed by (simp add: blofinProxyOptimized_def)
  next
    case req0: (Inr req0)
    show ?thesis
    proof (cases "upstream env httpClient
         (req0\<lparr>p_Header := copyHeaders (unicodeLower env) (r_Header r) (p_Header req0)\<rparr>)")
      case (Inl err)
      then show ?thesis
        using failed parsed req0 by (simp add: blofinProxyOptimized_def)
    next
      case resp: (Inr resp)
      show ?thesis
      proof (cases "w_panic (WriteHeader (StatusCode resp)
          (w\<lparr>w_Header := copyHeaders (unicodeLower env) (u_Header resp) (w_Header w)\<rparr>)) = None")
        case True
        then show ?thesis
          using relayed [of parsed req0 resp] parsed req0 resp
          by (simp add: blofinProxyOptimized_def io_Copy_def)
      next
        case False
        then show ?thesis
          using panicked [of parsed req0 resp] parsed req0 resp
          by (simp add: blofinProxyOptimized_def)
      qed
    qed
  qed
qed

lemma NewRequestWithContext_fields:
  assumes "http_NewRequestWithContext ul ctx m url b = Inr req"
  shows "p_ctx req = ctx" and "p_Header req = Map.empty" and "p_Body req = b"
    and "p_Method req = (if m = [] then ''GET'' else m)"
    and "\<exists>u. url_Parse ul url = Inr u \<and> p_URL req = u\<lparr>Host := removeEmptyPort (Host u)\<rparr>"
  using assms
  by (auto simp: http_NewRequestWithContext_def Let_def split: if_splits sum.splits)

lemma NewRequest_fields:
  assumes "http_NewRequest ul m url b = Inr req"
  shows "p_ctx req = Background" and "p_Header req = Map.empty" and "p_Body req = b"
    and "p_Method req = (if m = [] then ''GET'' else m)"
    and "\<exists>u. url_Parse ul url = Inr u \<and> p_URL req = u\<lparr>Host := removeEmptyPort (Host u)\<rparr>"
  using NewRequestWithContext_fields [of ul Background m url b req] assms
  by (simp_all add: http_NewRequest_def)

lemma blofinProxy_calls:
  assumes "call \<in> set (out_calls (blofinProxy env w r))"
  shows "fst call = \<lparr>Timeout = 30 * time_Second\<rparr>"
    and "p_ctx (snd call) = Background"
    and "p_Header (snd call) = copyHeaders (unicodeLower env) (r_Header r) Map.empty"
proof -
  have "fst call = \<lparr>Timeout = 30 * time_Second\<rparr> \<and> p_ctx (snd call) = Background
      \<and> p_Header (snd call) = copyHeaders (unicodeLower env) (r_Header r) Map.empty"
    using assms
    by (cases rule: blofinProxy_cases [of env r w])
       (simp_all add: NewRequest_fields(1,2))
  then show "fst call = \<lparr>Timeout = 30 * time_Second\<rparr>"
    and "p_ctx (snd call) = Background"
    and "p_Header (snd call) = copyHeaders (unicodeLower env) (r_Header r) Map.empty"
    by simp_all
qed

lemma blofinProxyOptimized_calls:
  assumes "call \<in> set (out_calls (fst (blofinProxyOptimized env n w r)))"
  shows "fst call = httpClient"
    and "p_ctx (snd call) = WithTimeout RequestContext (25 * time_Second)"
    and "p_Header (snd call) = copyHeaders (unicodeLower env) (r_Header r) Map.empty"
proof -
  have "fst call = httpClient
      \<and> p_ctx (snd call) = WithTimeout RequestContext (25 * time_Second)
      \<and> p_Header (snd call) = copyHeaders (unicodeLower env) (r_Header r) Map.empty"
    using assms
    by (cases rule: blofinProxyOptimized_cases [of env r n w])
       (simp_all add: NewRequestWithContext_fields(1,2))
  then show "fst call = httpClient"
    and "p_ctx (snd call) = WithTimeout RequestContext (25 * time_Second)"
    and "p_Header (snd call) = copyHeaders (unicodeLower env) (r_Header r) Map.empty"
    by simp_all
qed

lemma rootHandler_calls:
  "out_calls (rootHandler env w r) =
     (if r_Path r \<noteq> ''/'' \<and> strings_HasPrefix (r_Path r) ''/api/''
      then out_calls (blofinProxy env w r) else [])"
  by (simp add: rootHandler_def Let_def)

lemma corsMiddleware_calls:
  "out_calls (corsMiddleware next env w r) =
     (if r_Method r = ''OPTIONS'' then [] else out_calls (next env (setCorsHeaders w) r))"
  by (simp add: corsMiddleware_def Let_def)

lemma corsMiddlewareOpt_calls:
  "out_calls (fst (corsMiddlewareOpt next env n w r)) =
     (if r_Method r = ''OPTIONS'' then [] else out_calls (fst (next env n (setCorsHeaders w) r)))"
  by (simp add: corsMiddlewareOpt_def Let_def)

section \<open>Keys that stay absent from a response writer\<close>

lemma fixed_keys_ascii:
  "list_all isASCII (CanonicalMIMEHeaderKey ''Content-Type'')"
  "list_all isASCII (CanonicalMIMEHeaderKey ''X-Content-Type-Options'')"
  "list_all isASCII (CanonicalMIMEHeaderKey ''Access-Control-Allow-Origin'')"
  "list_all isASCII (CanonicalMIMEHeaderKey ''Access-Control-Allow-Methods'')"
  "list_all isASCII (CanonicalMIMEHeaderKey ''Access-Control-Allow-Headers'')"
  "list_all isASCII (CanonicalMIMEHeaderKey ''Access-Control-Max-Age'')"
  by code_simp+

lemma fixed_keys_not_listed:
  "map lowerByte (CanonicalMIMEHeaderKey ''Content-Type'')
     \<notin> set (map (map lowerByte) hopByHopHeaders)"
  "map lowerByte (CanonicalMIMEHeaderKey ''X-Content-Type-Options'')
     \<notin> set (map (map lowerByte) hopByHopHeaders)"
  "map lowerByte (CanonicalMIMEHeaderKey ''Access-Control-Allow-Origin'')
     \<notin> set (map (map lowerByte) hopByHopHeaders)"
  "map lowerByte (CanonicalMIMEHeaderKey ''Access-Control-Allow-Methods'')
     \<notin> set (map (map lowerByte) hopByHopHeaders)"
  "map lowerByte (CanonicalMIMEHeaderKey ''Access-Control-Allow-Headers'')
     \<notin> set (map (map lowerByte) hopByHopHeaders)"
  "map lowerByte (CanonicalMIMEHeaderKey ''Access-Control-Max-Age'')
     \<notin> set (map (map lowerByte) hopByHopHeaders)"
  by code_simp+

lemma fixed_keys_not_hop:
  "\<not> isHopByHopHeader ul (CanonicalMIMEHeaderKey ''Content-Type'')"
  "\<not> isHopByHopHeader ul (CanonicalMIMEHeaderKey ''X-Content-Type-Options'')"
  "\<not> isHopByHopHeader ul (CanonicalMIMEHeaderKey ''Access-Control-Allow-Origin'')"
  "\<not> isHopByHopHeader ul (CanonicalMIMEHeaderKey ''Access-Control-Allow-Methods'')"
  "\<not> isHopByHopHeader ul (CanonicalMIMEHeaderKey ''Access-Control-Allow-Headers'')"
  "\<not> isHopByHopHeader ul (CanonicalMIMEHeaderKey ''Access-Control-Max-Age'')"
  by (simp_all only: isHop_ascii [OF fixed_keys_ascii(1)] isHop_ascii [OF fixed_keys_ascii(2)]
      isHop_ascii [OF fixed_keys_ascii(3)] isHop_ascii [OF fixed_keys_ascii(4)]
      isHop_ascii [OF fixed_keys_ascii(5)] isHop_ascii [OF fixed_keys_ascii(6)]
      fixed_keys_not_listed not_False_eq_True)

lemma keyAbsent_new: "keyAbsent k newResponseWriter"
  by (simp add: keyAbsent_def newResponseWriter_def)

lemma keyAbsent_w_Set:
  "keyAbsent k w \<Longrightarrow> CanonicalMIMEHeaderKey key \<noteq> k \<Longrightarrow> keyAbsent k (w_Set key v w)"
  by (simp add: keyAbsent_def w_Set_def Header_Set_def)

lemma keyAbsent_WriteHeader: "keyAbsent k w \<Longrightarrow> keyAbsent k (WriteHeader code w)"
  by (simp add: keyAbsent_def WriteHeader_def)

lemma keyAbsent_Write: "keyAbsent k w \<Longrightarrow> keyAbsent k (Write bytes w)"
  by (simp add: keyAbsent_def Write_def WriteHeader_def Let_def)

lemma keyAbsent_finish: "keyAbsent k w \<Longrightarrow> headers (finish w) k = None"
  by (simp add: keyAbsent_def finish_def split: option.splits)

lemma hop_key_differs:
  "isHopByHopHeader ul k \<Longrightarrow> \<not> isHopByHopHeader ul k' \<Longrightarrow> k' \<noteq> k"
  by auto

lemma keyAbsent_http_Error:
  "isHopByHopHeader ul k \<Longrightarrow> keyAbsent k w \<Longrightarrow> keyAbsent k (http_Error w msg code)"
  unfolding http_Error_def
  by (intro keyAbsent_Write keyAbsent_WriteHeader keyAbsent_w_Set hop_key_differs
      fixed_keys_not_hop)

lemma keyAbsent_setCorsHeaders:
  "isHopByHopHeader ul k \<Longrightarrow> keyAbsent k w \<Longrightarrow> keyAbsent k (setCorsHeaders w)"
  unfolding setCorsHeaders_def
  by (intro keyAbsent_w_Set hop_key_differs fixed_keys_not_hop)

lemma keyAbsent_copy:
  "isHopByHopHeader ul k \<Longrightarrow> keyAbsent k w
   \<Longrightarrow> keyAbsent k (w\<lparr>w_Header := copyHeaders ul src (w_Header w)\<rparr>)"
  by (simp add: keyAbsent_def copyHeaders_hop)

lemma keyAbsent_io_Copy: "keyAbsent k w \<Longrightarrow> keyAbsent k (fst (io_Copy w resp))"
  by (simp add: io_Copy_def keyAbsent_Write)

lemma keyAbsent_blofinProxy:
  assumes "isHopByHopHeader (unicodeLower env) k" and "keyAbsent k w"
  shows "keyAbsent k (out_w (blofinProxy env w r))"
  by (cases rule: blofinProxy_cases [of env r w])
     (simp_all add: assms keyAbsent_http_Error [OF assms(1)] keyAbsent_io_Copy
        keyAbsent_WriteHeader keyAbsent_copy [OF assms(1)])

lemma keyAbsent_blofinProxyOptimized:
  assumes "isHopByHopHeader (unicodeLower env) k" and "keyAbsent k w"
  shows "keyAbsent k (out_w (fst (blofinProxyOptimized env n w r)))"
  by (cases rule: blofinProxyOptimized_cases [of env r n w])
     (simp_all add: assms keyAbsent_http_Error [OF assms(1)] keyAbsent_io_Copy
        keyAbsent_WriteHeader keyAbsent_copy [OF assms(1)])

lemma keyAbsent_rootHandler:
  assumes "isHopByHopHeader (unicodeLower env) k" and "keyAbsent k w"
  shows "keyAbsent k (out_w (rootHandler env w r))"
  using assms
  by (simp add: rootHandler_def Let_def http_NotFound_def keyAbsent_http_Error [OF assms(1)]
      keyAbsent_blofinProxy keyAbsent_Write keyAbsent_w_Set hop_key_differs fixed_keys_not_hop)

section \<open>Escaping and unescaping\<close>

lemma unescape_plain: "CHR ''%'' \<notin> set s \<Longrightarrow> unescape s = Inr s"
  by (induction s) auto

lemma hex_digit:
  assumes "0 \<le> k" and "k < 16"
  shows "ishex (upperhex k)" and "unhex (upperhex k) = k"
proof -
  have small: "(48 + k) mod 256 = 48 + k" "(55 + k) mod 256 = 55 + k"
    using assms by simp_all
  show "ishex (upperhex k)"
    using assms by (auto simp: upperhex_def ishex_def isDigitByte_def of_char_of small)
  show "unhex (upperhex k) = k"
    using assms by (auto simp: upperhex_def unhex_def isDigitByte_def of_char_of small)
qed

lemma byte_range: "0 \<le> (of_char c :: int)" "(of_char c :: int) < 256"
proof -
  have "(of_char c :: int) = int (of_char c :: nat)"
    by (simp add: of_char_def)
  moreover have "(of_char c :: nat) < 256"
    by simp
  ultimately show "0 \<le> (of_char c :: int)" "(of_char c :: int) < 256"
    by simp_all
qed

lemma hex_pair:
  "ishex (upperhex ((of_char c :: int) div 16))"
  "ishex (upperhex ((of_char c :: int) mod 16))"
  "char_of (unhex (upperhex ((of_char c :: int) div 16)) * 16
            + unhex (upperhex ((of_char c :: int) mod 16))) = c"
proof -
  define n where "n = (of_char c :: int)"
  have n: "0 \<le> n" "n < 256"
    using byte_range [of c] by (simp_all add: n_def)
  then have hi: "0 \<le> n div 16" "n div 16 < 16"
    by simp_all
  have lo: "0 \<le> n mod 16" "n mod 16 < 16"
    by simp_all
  show "ishex (upperhex ((of_char c :: int) div 16))"
    using hex_digit(1) [OF hi] by (simp only: n_def)
  show "ishex (upperhex ((of_char c :: int) mod 16))"
    using hex_digit(1) [OF lo] by (simp only: n_def)
  have "unhex (upperhex (n div 16)) * 16 + unhex (upperhex (n mod 16)) = n"
    by (simp only: hex_digit(2) [OF hi] hex_digit(2) [OF lo]) simp
  then show "char_of (unhex (upperhex ((of_char c :: int) div 16)) * 16
            + unhex (upperhex ((of_char c :: int) mod 16))) = c"
    by (simp add: n_def)
qed

lemma percent_escaped_modes:
  "shouldEscape (CHR ''%'') encodePath"
  "shouldEscape (CHR ''%'') encodeHost"
  "shouldEscape (CHR ''%'') encodeFragment"
  by code_simp+

lemma percent_escaped: "shouldEscape (CHR ''%'') mode"
  by (cases mode) (simp_all only: percent_escaped_modes)

lemma unescape_escape: "unescape (escape mode s) = Inr s"
proof (induction s)
  case Nil
  show ?case by simp
next
  case (Cons c s)
  show ?case
  proof (cases "shouldEscape c mode")
    case True
    then show ?thesis
      by (simp add: Cons.IH hex_pair)
  next
    case False
    then have "c \<noteq> CHR ''%''"
      using percent_escaped by auto
    with False show ?thesis
      by (simp add: Cons.IH)
  qed
qed

text \<open>
  A control byte, a question mark and a number sign are never left as they are in the
  path part of the text of a URL.
\<close>

lemma printable_lists:
  "list_all (\<lambda>x. 32 \<le> (of_char x :: int) \<and> (of_char x :: int) \<noteq> 127)
     (''!$&()*+,;=:[]<>'' @ [CHR 0x27, CHR 0x22])"
  "list_all (\<lambda>x. 32 \<le> (of_char x :: int) \<and> (of_char x :: int) \<noteq> 127) ''-_.~''"
  "list_all (\<lambda>x. 32 \<le> (of_char x :: int) \<and> (of_char x :: int) \<noteq> 127) ''$&+,/:;=?@''"
  "list_all (\<lambda>x. 32 \<le> (of_char x :: int) \<and> (of_char x :: int) \<noteq> 127) ''!()*''"
  by code_simp+

lemma ctl_not_listed:
  assumes "(of_char c :: int) < 32 \<or> (of_char c :: int) = 127"
    and "list_all (\<lambda>x. 32 \<le> (of_char x :: int) \<and> (of_char x :: int) \<noteq> 127) l"
  shows "c \<notin> set l"
  using assms by (auto simp: list_all_iff)

lemma ctl_escaped:
  assumes "(of_char c :: int) < 32 \<or> (of_char c :: int) = 127"
  shows "shouldEscape c mode"
proof -
  have alnum: "\<not> (isLowerByte c \<or> isUpperByte c \<or> isDigitByte c)"
    using assms by (auto simp: isLowerByte_def isUpperByte_def isDigitByte_def)
  note out = ctl_not_listed [OF assms printable_lists(1)] ctl_not_listed [OF assms printable_lists(2)]
    ctl_not_listed [OF assms printable_lists(3)] ctl_not_listed [OF assms printable_lists(4)]
  show ?thesis
    unfolding shouldEscape_def
    by (simp only: alnum out if_False simp_thms)
qed

lemma mark_escaped: "shouldEscape (CHR ''?'') encodePath" "shouldEscape (CHR ''#'') encodePath"
  by code_simp+

lemma unescaped_byte:
  assumes "\<not> shouldEscape c encodePath"
  shows "c \<noteq> CHR ''?''" and "c \<noteq> CHR ''#''"
    and "\<not> ((of_char c :: int) < 32 \<or> (of_char c :: int) = 127)"
  using assms mark_escaped ctl_escaped [of c encodePath] by auto

lemma upperhex_byte:
  assumes "0 \<le> k" and "k < 16"
  shows "upperhex k \<noteq> CHR ''?''" and "upperhex k \<noteq> CHR ''#''"
    and "\<not> ((of_char (upperhex k) :: int) < 32 \<or> (of_char (upperhex k) :: int) = 127)"
proof -
  have small: "(48 + k) mod 256 = 48 + k" "(55 + k) mod 256 = 55 + k"
    using assms by simp_all
  have code: "(of_char (upperhex k) :: int) = (if k < 10 then 48 + k else 55 + k)"
    by (simp add: upperhex_def of_char_of small)
  have "(of_char (upperhex k) :: int) \<noteq> of_char (CHR ''?'')"
    using assms by (simp add: code)
  then show "upperhex k \<noteq> CHR ''?''"
    by auto
  have "(of_char (upperhex k) :: int) \<noteq> of_char (CHR ''#'')"
    using assms by (simp add: code)
  then show "upperhex k \<noteq> CHR ''#''"
    by auto
  show "\<not> ((of_char (upperhex k) :: int) < 32 \<or> (of_char (upperhex k) :: int) = 127)"
    using assms by (simp add: code)
qed

lemma escape_path_clean:
  "CHR ''?'' \<notin> set (escape encodePath s) \<and> CHR ''#'' \<notin> set (escape encodePath s)
   \<and> \<not> stringContainsCTLByte (escape encodePath s)"
proof (induction s)
  case Nil
  show ?case by (simp add: stringContainsCTLByte_def)
next
  case (Cons c s)
  define n where "n = (of_char c :: int)"
  have n: "0 \<le> n" "n < 256"
    using byte_range [of c] by (simp_all add: n_def)
  then have hi: "0 \<le> n div 16" "n div 16 < 16"
    by simp_all
  have lo: "0 \<le> n mod 16" "n mod 16 < 16"
    by simp_all
  show ?case
  proof (cases "shouldEscape c encodePath")
    case True
    then show ?thesis
      using Cons.IH upperhex_byte [OF hi] upperhex_byte [OF lo]
      by (simp add: stringContainsCTLByte_def n_def [symmetric])
  next
    case False
    then show ?thesis
      using Cons.IH unescaped_byte [OF False]
      by (simp add: stringContainsCTLByte_def)
  qed
qed

lemma validEncoded_path_clean:
  assumes "validEncoded s encodePath"
  shows "CHR ''?'' \<notin> set s \<and> CHR ''#'' \<notin> set s \<and> \<not> stringContainsCTLByte s"
  using assms
proof (induction s)
  case Nil
  show ?case by (simp add: stringContainsCTLByte_def)
next
  case (Cons c s)
  then have rest: "CHR ''?'' \<notin> set s \<and> CHR ''#'' \<notin> set s \<and> \<not> stringContainsCTLByte s"
    by (simp add: validEncoded_def)
  have "c \<in> set (''!$&()*+,;=:@[]%'' @ [CHR 0x27]) \<or> \<not> shouldEscape c encodePath"
    using Cons.prems by (simp add: validEncoded_def)
  then have "c \<noteq> CHR ''?'' \<and> c \<noteq> CHR ''#''
      \<and> \<not> ((of_char c :: int) < 32 \<or> (of_char c :: int) = 127)"
  proof
    assume "c \<in> set (''!$&()*+,;=:@[]%'' @ [CHR 0x27])"
    then show ?thesis by auto
  next
    assume "\<not> shouldEscape c encodePath"
    then show ?thesis using unescaped_byte by blast
  qed
  with rest show ?case
    by (auto simp: stringContainsCTLByte_def)
qed

lemma slash_kept: "\<not> shouldEscape (CHR ''/'') encodePath"
  by code_simp

section \<open>The text of a URL and its path\<close>

lemma EscapedPath_cases:
  "EscapedPath u = RawPath u \<and> validEncoded (RawPath u) encodePath
     \<and> unescape (RawPath u) = Inr (Path u) \<and> RawPath u \<noteq> []
   \<or> EscapedPath u = ''*'' \<and> Path u = ''*''
   \<or> EscapedPath u = escape encodePath (Path u) \<and> Path u \<noteq> ''*''"
  by (simp add: EscapedPath_def)

lemma EscapedPath_rooted:
  assumes "Path u = CHR ''/'' # p'"
    and "RawPath u = [] \<or> RawPath u = Path u"
  shows "unescape (EscapedPath u) = Inr (Path u)"
    and "\<exists>e. EscapedPath u = CHR ''/'' # e"
    and "CHR ''?'' \<notin> set (EscapedPath u)"
    and "CHR ''#'' \<notin> set (EscapedPath u)"
    and "\<not> stringContainsCTLByte (EscapedPath u)"
proof -
  have star: "Path u \<noteq> ''*''"
    using assms(1) by simp
  consider (raw) "EscapedPath u = RawPath u" "validEncoded (RawPath u) encodePath"
        "unescape (RawPath u) = Inr (Path u)" "RawPath u \<noteq> []"
    | (esc) "EscapedPath u = escape encodePath (Path u)"
    using EscapedPath_cases [of u] star by blast
  then have "unescape (EscapedPath u) = Inr (Path u)
      \<and> (\<exists>e. EscapedPath u = CHR ''/'' # e)
      \<and> CHR ''?'' \<notin> set (EscapedPath u) \<and> CHR ''#'' \<notin> set (EscapedPath u)
      \<and> \<not> stringContainsCTLByte (EscapedPath u)"
  proof cases
    case raw
    then have "RawPath u = Path u"
      using assms(2) by simp
    then show ?thesis
      using raw validEncoded_path_clean [OF raw(2)] assms(1) by simp
  next
    case esc
    then show ?thesis
      using escape_path_clean [of "Path u"] unescape_escape [of encodePath "Path u"]
      by (simp add: assms(1) slash_kept)
  qed
  then show "unescape (EscapedPath u) = Inr (Path u)"
    and "\<exists>e. EscapedPath u = CHR ''/'' # e"
    and "CHR ''?'' \<notin> set (EscapedPath u)"
    and "CHR ''#'' \<notin> set (EscapedPath u)"
    and "\<not> stringContainsCTLByte (EscapedPath u)"
    by simp_all
qed

section \<open>Parsing the target URL\<close>

lemma strings_Cut_absent: "sep \<notin> set s \<Longrightarrow> strings_Cut s sep = (s, [], False)"
  by (simp add: strings_Cut_def)

lemma strings_Cut_found: "sep \<notin> set a \<Longrightarrow> strings_Cut (a @ sep # b) sep = (a, b, True)"
proof -
  assume out: "sep \<notin> set a"
  then have all: "\<And>x. x \<in> set a \<Longrightarrow> x \<noteq> sep"
    by auto
  have "takeWhile (\<lambda>c. c \<noteq> sep) (a @ sep # b) = a"
    using all by (simp add: takeWhile_tail)
  moreover have "dropWhile (\<lambda>c. c \<noteq> sep) (a @ sep # b) = sep # b"
    using all by (simp add: dropWhile_append2)
  ultimately show ?thesis
    by (simp add: strings_Cut_def)
qed

lemma strings_Cut_query:
  assumes "CHR ''?'' \<notin> set a"
  shows "strings_Cut (a @ (if Q = [] then [] else CHR ''?'' # Q)) (CHR ''?'') = (a, Q, Q \<noteq> [])"
  using assms by (simp add: strings_Cut_absent strings_Cut_found)

lemma getScheme_target:
  "getScheme (BLOFIN_API_BASE @ p) = Inr (''https'', ''//openapi.blofin.com'' @ p)"
  by (simp add: getScheme_def BLOFIN_API_BASE_def isLetterByte_def isLowerByte_def
      isUpperByte_def isDigitByte_def)

lemma CTL_append:
  "stringContainsCTLByte (a @ b) = (stringContainsCTLByte a \<or> stringContainsCTLByte b)"
  by (simp add: stringContainsCTLByte_def)

lemma CTL_query:
  "stringContainsCTLByte (if Q = [] then [] else CHR ''?'' # Q) = stringContainsCTLByte Q"
  by (simp add: stringContainsCTLByte_def)

lemma CTL_base: "\<not> stringContainsCTLByte BLOFIN_API_BASE"
  by code_simp

lemma host_plain:
  "parseAuthority ''openapi.blofin.com'' = Inr ''openapi.blofin.com''"
  "escape encodeHost ''openapi.blofin.com'' = ''openapi.blofin.com''"
  "removeEmptyPort ''openapi.blofin.com'' = ''openapi.blofin.com''"
  by code_simp+

lemma last_not: "c \<notin> set s \<Longrightarrow> s \<noteq> [] \<Longrightarrow> last s \<noteq> c"
  using last_in_set by metis

lemma not_forced:
  assumes "CHR ''?'' \<notin> set a" and "a \<noteq> []"
  shows "\<not> (a @ (if Q = [] then [] else CHR ''?'' # Q) \<noteq> []
            \<and> last (a @ (if Q = [] then [] else CHR ''?'' # Q)) = CHR ''?''
            \<and> count_list (a @ (if Q = [] then [] else CHR ''?'' # Q)) (CHR ''?'') = 1)"
proof (cases "Q = []")
  case True
  then show ?thesis
    using last_not [OF assms] by simp
next
  case False
  have "count_list Q (CHR ''?'') \<noteq> 0" if "last Q = CHR ''?''"
    using that False last_in_set [of Q] by (simp add: count_list_0_iff)
  then show ?thesis
    using False by auto
qed

lemma parse_authority_path:
  assumes ctl: "\<not> stringContainsCTLByte raw"
    and star: "raw \<noteq> ''*''"
    and scheme: "getScheme raw
        = Inr (scheme, (''//'' @ host @ p) @ (if Q = [] then [] else CHR ''?'' # Q))"
    and lower: "strings_ToLower ul scheme = sch"
    and named: "sch \<noteq> []"
    and noq: "CHR ''?'' \<notin> set (host @ p)"
    and noslash: "CHR ''/'' \<notin> set host"
    and rooted: "p = CHR ''/'' # p'"
    and host: "parseAuthority host = Inr host"
    and plain: "unescape p = Inr path"
  shows "parse ul raw =
     Inr (emptyURL\<lparr>Scheme := sch, ForceQuery := False, RawQuery := Q, Host := host,
            Path := path, RawPath := (if escape encodePath path = p then [] else p)\<rparr>)"
proof -
  define a where "a = ''//'' @ host @ p"
  define rest0 where "rest0 = a @ (if Q = [] then [] else CHR ''?'' # Q)"
  have scheme': "getScheme raw = Inr (scheme, rest0)"
    using scheme by (simp only: rest0_def a_def)
  have noq0: "CHR ''?'' \<notin> set a"
    using noq by (simp add: a_def)
  have "a \<noteq> []"
    by (simp add: a_def)
  with noq0 have force: "(rest0 \<noteq> [] \<and> last rest0 = CHR ''?''
      \<and> count_list rest0 (CHR ''?'') = 1) = False"
    unfolding rest0_def using not_forced [of a Q] by blast
  have cut: "strings_Cut rest0 (CHR ''?'') = (a, Q, Q \<noteq> [])"
    unfolding rest0_def using noq0 by (rule strings_Cut_query)
  have pre1: "strings_HasPrefix a ''/''"
    by (simp add: a_def strings_HasPrefix_def)
  have pre2: "strings_HasPrefix a ''//''"
    by (simp add: a_def strings_HasPrefix_def)
  have after: "drop 2 a = host @ p"
    by (simp add: a_def)
  have allhost: "\<forall>c \<in> set host. c \<noteq> CHR ''/''"
    using noslash by auto
  have auth: "takeWhile (\<lambda>c. c \<noteq> CHR ''/'') (host @ p) = host"
    using allhost by (simp add: rooted takeWhile_tail)
  have rest2: "dropWhile (\<lambda>c. c \<noteq> CHR ''/'') (host @ p) = p"
    using allhost by (simp add: rooted dropWhile_append3)
  show ?thesis
    unfolding parse_def setPath_def
    by (simp only: ctl star scheme' force cut pre1 pre2 after auth rest2 host plain named lower
        Let_def if_False if_True sum.case prod.case fst_conv snd_conv not_True_eq_False
        simp_thms)
qed

lemma ToLower_https: "strings_ToLower ul ''https'' = ''https''"
proof -
  have "list_all isASCII ''https''" and "map lowerByte ''https'' = ''https''"
    by code_simp+
  then show ?thesis
    by (simp only: ToLower_ascii)
qed

lemma parse_target:
  assumes ctl: "\<not> stringContainsCTLByte p" "\<not> stringContainsCTLByte Q"
    and noq: "CHR ''?'' \<notin> set p"
    and rooted: "p = CHR ''/'' # p'"
    and plain: "unescape p = Inr path"
  shows "parse ul (BLOFIN_API_BASE @ p @ (if Q = [] then [] else CHR ''?'' # Q)) =
     Inr (emptyURL\<lparr>Scheme := ''https'', ForceQuery := False, RawQuery := Q,
            Host := ''openapi.blofin.com'', Path := path,
            RawPath := (if escape encodePath path = p then [] else p)\<rparr>)"
proof (rule parse_authority_path [where p' = p' and scheme = "''https''"])
  show "\<not> stringContainsCTLByte (BLOFIN_API_BASE @ p @ (if Q = [] then [] else CHR ''?'' # Q))"
    using ctl by (simp only: CTL_base CTL_append CTL_query simp_thms)
  show "BLOFIN_API_BASE @ p @ (if Q = [] then [] else CHR ''?'' # Q) \<noteq> ''*''"
    by (simp add: BLOFIN_API_BASE_def)
  show "getScheme (BLOFIN_API_BASE @ p @ (if Q = [] then [] else CHR ''?'' # Q))
      = Inr (''https'', (''//'' @ ''openapi.blofin.com'' @ p) @ (if Q = [] then [] else CHR ''?'' # Q))"
    using getScheme_target [of "p @ (if Q = [] then [] else CHR ''?'' # Q)"] by simp
  show "strings_ToLower ul ''https'' = ''https''"
    by (rule ToLower_https)
  show "''https'' \<noteq> []"
    by simp
  show "CHR ''?'' \<notin> set (''openapi.blofin.com'' @ p)"
    using noq by simp
  show "CHR ''/'' \<notin> set ''openapi.blofin.com''"
    by simp
  show "p = CHR ''/'' # p'"
    by (rule rooted)
  show "parseAuthority ''openapi.blofin.com'' = Inr ''openapi.blofin.com''"
    by (rule host_plain)
  show "unescape p = Inr path"
    by (rule plain)
qed

lemma url_Parse_target:
  assumes ctl: "\<not> stringContainsCTLByte p" "\<not> stringContainsCTLByte Q"
    and noq: "CHR ''?'' \<notin> set p"
    and nofrag: "CHR ''#'' \<notin> set p" "CHR ''#'' \<notin> set Q"
    and rooted: "p = CHR ''/'' # p'"
    and plain: "unescape p = Inr path"
  shows "url_Parse ul (BLOFIN_API_BASE @ p @ (if Q = [] then [] else CHR ''?'' # Q)) =
     Inr (emptyURL\<lparr>Scheme := ''https'', ForceQuery := False, RawQuery := Q,
            Host := ''openapi.blofin.com'', Path := path,
            RawPath := (if escape encodePath path = p then [] else p)\<rparr>)"
proof -
  have "CHR ''#'' \<notin> set (BLOFIN_API_BASE @ p @ (if Q = [] then [] else CHR ''?'' # Q))"
    using nofrag by (simp add: BLOFIN_API_BASE_def)
  then have "strings_Cut (BLOFIN_API_BASE @ p @ (if Q = [] then [] else CHR ''?'' # Q)) (CHR ''#'')
      = (BLOFIN_API_BASE @ p @ (if Q = [] then [] else CHR ''?'' # Q), [], False)"
    by (rule strings_Cut_absent)
  then show ?thesis
    by (simp add: url_Parse_def parse_target [OF ctl noq rooted plain])
qed

text \<open>The text of the target URL: the fixed origin, the escaped path, the query.\<close>

lemma URL_String_authority:
  assumes "Scheme u = s" and "s \<noteq> []" and "Opaque u = []" and "Host u = h" and "h \<noteq> []"
    and "escape encodeHost h = h" and "Fragment u = []" and "\<not> ForceQuery u"
    and "EscapedPath u = CHR ''/'' # e"
  shows "URL_String u =
     (s @ '':'' @ ''//'' @ h) @ EscapedPath u
       @ (if RawQuery u = [] then [] else CHR ''?'' # RawQuery u)"
  using assms by (simp add: URL_String_def Let_def)

lemma URL_String_target:
  assumes "Scheme u = ''https''" and "Opaque u = []" and "Host u = ''openapi.blofin.com''"
    and "Fragment u = []" and "\<not> ForceQuery u"
    and "EscapedPath u = CHR ''/'' # e"
  shows "URL_String u =
     BLOFIN_API_BASE @ EscapedPath u @ (if RawQuery u = [] then [] else CHR ''?'' # RawQuery u)"
proof -
  have base: "''https'' @ '':'' @ ''//'' @ ''openapi.blofin.com'' = BLOFIN_API_BASE"
    by (simp add: BLOFIN_API_BASE_def)
  have "URL_String u =
     (''https'' @ '':'' @ ''//'' @ ''openapi.blofin.com'') @ EscapedPath u
       @ (if RawQuery u = [] then [] else CHR ''?'' # RawQuery u)"
    by (rule URL_String_authority [OF assms(1) _ assms(2) assms(3) _ host_plain(2) assms(4-6)])
       simp_all
  then show ?thesis
    by (simp only: base)
qed

section \<open>The two parses of the forwarder\<close>

lemma pathSafe_api: "pathSafe X \<Longrightarrow> pathSafe (''/api/'' @ X)"
  by (simp add: pathSafe_def stringContainsCTLByte_def)

text \<open>The first parse, of the fixed origin followed by the inbound path.\<close>

lemma target_parses:
  assumes "pathSafe p" and "p = CHR ''/'' # p'"
  obtains parsed where "url_Parse ul (BLOFIN_API_BASE @ p) = Inr parsed"
    and "Scheme parsed = ''https''" and "Opaque parsed = []"
    and "Host parsed = ''openapi.blofin.com''" and "Path parsed = p"
    and "RawPath parsed = [] \<or> RawPath parsed = p"
    and "Fragment parsed = []" and "\<not> ForceQuery parsed"
proof -
  have plain: "unescape p = Inr p"
    using assms(1) by (simp add: pathSafe_def unescape_plain)
  have "url_Parse ul (BLOFIN_API_BASE @ p @ (if ([] :: string) = [] then [] else CHR ''?'' # [])) =
     Inr (emptyURL\<lparr>Scheme := ''https'', ForceQuery := False, RawQuery := [],
            Host := ''openapi.blofin.com'', Path := p,
            RawPath := (if escape encodePath p = p then [] else p)\<rparr>)"
    using assms(1) by (intro url_Parse_target [OF _ _ _ _ _ assms(2) plain])
      (simp_all add: pathSafe_def stringContainsCTLByte_def)
  then have "url_Parse ul (BLOFIN_API_BASE @ p) =
     Inr (emptyURL\<lparr>Scheme := ''https'', ForceQuery := False, RawQuery := [],
            Host := ''openapi.blofin.com'', Path := p,
            RawPath := (if escape encodePath p = p then [] else p)\<rparr>)"
    by simp
  then show thesis
    by (rule that) (simp_all add: emptyURL_def)
qed

text \<open>
  The second parse, of the text of the target URL: it gives back the path, and the
  query that was put into the target URL, when the query has no control byte and no
  number sign.
\<close>

lemma target_reparses:
  assumes "Scheme u = ''https''" and "Opaque u = []" and "Host u = ''openapi.blofin.com''"
    and "Path u = CHR ''/'' # p'" and "RawPath u = [] \<or> RawPath u = Path u"
    and "Fragment u = []" and "\<not> ForceQuery u" and "querySafe (RawQuery u)"
  obtains u' where "url_Parse ul (URL_String u) = Inr u'"
    and "Scheme u' = ''https''" and "Opaque u' = []"
    and "Host u' = ''openapi.blofin.com''" and "Path u' = Path u"
    and "RawQuery u' = RawQuery u" and "Fragment u' = []"
proof -
  note esc = EscapedPath_rooted [OF assms(4,5)]
  from esc(2) obtain e where e: "EscapedPath u = CHR ''/'' # e"
    by blast
  have str: "URL_String u =
     BLOFIN_API_BASE @ EscapedPath u @ (if RawQuery u = [] then [] else CHR ''?'' # RawQuery u)"
    by (rule URL_String_target [OF assms(1,2,3,6,7) e])
  have "url_Parse ul
      (BLOFIN_API_BASE @ EscapedPath u @ (if RawQuery u = [] then [] else CHR ''?'' # RawQuery u)) =
     Inr (emptyURL\<lparr>Scheme := ''https'', ForceQuery := False, RawQuery := RawQuery u,
            Host := ''openapi.blofin.com'', Path := Path u,
            RawPath := (if escape encodePath (Path u) = EscapedPath u then [] else EscapedPath u)\<rparr>)"
    using assms(8)
    by (intro url_Parse_target [OF esc(5) _ esc(3) esc(4) _ e esc(1)])
       (simp_all add: querySafe_def)
  then have "url_Parse ul (URL_String u) =
     Inr (emptyURL\<lparr>Scheme := ''https'', ForceQuery := False, RawQuery := RawQuery u,
            Host := ''openapi.blofin.com'', Path := Path u,
            RawPath := (if escape encodePath (Path u) = EscapedPath u then [] else EscapedPath u)\<rparr>)"
    by (simp only: str)
  then show thesis
    by (rule that) (simp_all add: emptyURL_def)
qed

text \<open>
  So for a safe path and query and a valid method the request for the upstream is built,
  and its URL has the inbound path and query.
\<close>

lemma target_request:
  assumes "pathSafe p" and "p = CHR ''/'' # p'" and "querySafe Q" and "validMethod m"
  obtains parsed req where "url_Parse ul (BLOFIN_API_BASE @ p) = Inr parsed"
    and "http_NewRequestWithContext ul ctx m (URL_String (parsed\<lparr>RawQuery := Q\<rparr>)) b = Inr req"
    and "p_ctx req = ctx" and "p_Method req = m" and "p_Header req = Map.empty"
    and "p_Body req = b"
    and "Scheme (p_URL req) = ''https''" and "Opaque (p_URL req) = []"
    and "Host (p_URL req) = ''openapi.blofin.com''" and "Path (p_URL req) = p"
    and "RawQuery (p_URL req) = Q" and "Fragment (p_URL req) = []"
proof -
  obtain parsed where parsed: "url_Parse ul (BLOFIN_API_BASE @ p) = Inr parsed"
    "Scheme parsed = ''https''" "Opaque parsed = []"
    "Host parsed = ''openapi.blofin.com''" "Path parsed = p"
    "RawPath parsed = [] \<or> RawPath parsed = p"
    "Fragment parsed = []" "\<not> ForceQuery parsed"
    using target_parses [OF assms(1,2)] by blast
  define u where "u = parsed\<lparr>RawQuery := Q\<rparr>"
  have u: "Scheme u = ''https''" "Opaque u = []" "Host u = ''openapi.blofin.com''"
    "Path u = CHR ''/'' # p'" "RawPath u = [] \<or> RawPath u = Path u"
    "Fragment u = []" "\<not> ForceQuery u" "querySafe (RawQuery u)" "RawQuery u = Q" "Path u = p"
    using parsed(2-8) assms(2,3) by (simp_all add: u_def)
  obtain u' where u': "url_Parse ul (URL_String u) = Inr u'"
    "Scheme u' = ''https''" "Opaque u' = []"
    "Host u' = ''openapi.blofin.com''" "Path u' = Path u"
    "RawQuery u' = RawQuery u" "Fragment u' = []"
    using target_reparses [OF u(1-8)] by blast
  have nonempty: "m \<noteq> []"
    using assms(4) by (simp add: validMethod_def)
  have built: "http_NewRequestWithContext ul ctx m (URL_String (parsed\<lparr>RawQuery := Q\<rparr>)) b =
      Inr \<lparr>p_ctx = ctx, p_Method = m, p_URL = u'\<lparr>Host := removeEmptyPort (Host u')\<rparr>,
           p_Header = Map.empty, p_Body = b\<rparr>"
    using assms(4) nonempty u'(1)
    by (simp add: http_NewRequestWithContext_def Let_def u_def)
  show thesis
    by (rule that [OF parsed(1) built]) (simp_all add: u' u(9,10) host_plain)
qed

lemma blofinProxy_dispatch:
  assumes "r_Path r = ''/api/'' @ X" and "pathSafe X" and "querySafe (r_RawQuery r)"
    and "validMethod (r_Method r)"
  obtains u where
    "out_calls (blofinProxy env w r) =
       [(\<lparr>Timeout = 30 * time_Second\<rparr>,
         \<lparr>p_ctx = Background, p_Method = r_Method r, p_URL = u,
          p_Header = copyHeaders (unicodeLower env) (r_Header r) Map.empty,
          p_Body = r_Body r\<rparr>)]"
    and "Scheme u = ''https''" and "Opaque u = []"
    and "Host u = ''openapi.blofin.com''" and "Path u = ''/api/'' @ X"
    and "RawQuery u = r_RawQuery r" and "Fragment u = []"
proof -
  have rooted: "''/api/'' @ X = CHR ''/'' # (''api/'' @ X)"
    by simp
  obtain parsed req where
    parsed: "url_Parse (unicodeLower env) (BLOFIN_API_BASE @ ''/api/'' @ X) = Inr parsed"
    and built: "http_NewRequestWithContext (unicodeLower env) Background (r_Method r)
        (URL_String (parsed\<lparr>RawQuery := r_RawQuery r\<rparr>)) (r_Body r) = Inr req"
    and req: "p_ctx req = Background" "p_Method req = r_Method r" "p_Header req = Map.empty"
      "p_Body req = r_Body r"
    and url: "Scheme (p_URL req) = ''https''" "Opaque (p_URL req) = []"
      "Host (p_URL req) = ''openapi.blofin.com''" "Path (p_URL req) = ''/api/'' @ X"
      "RawQuery (p_URL req) = r_RawQuery r" "Fragment (p_URL req) = []"
    using target_request [OF pathSafe_api [OF assms(2)] rooted assms(3,4)] by metis
  have shape: "req\<lparr>p_Header := copyHeaders (unicodeLower env) (r_Header r) (p_Header req)\<rparr>
      = \<lparr>p_ctx = Background, p_Method = r_Method r, p_URL = p_URL req,
         p_Header = copyHeaders (unicodeLower env) (r_Header r) Map.empty,
         p_Body = r_Body r\<rparr>"
    using req by (cases req) simp
  have "out_calls (blofinProxy env w r) =
       [(\<lparr>Timeout = 30 * time_Second\<rparr>,
         req\<lparr>p_Header := copyHeaders (unicodeLower env) (r_Header r) (p_Header req)\<rparr>)]"
    using parsed built
    by (cases rule: blofinProxy_cases [of env r w])
       (simp_all add: assms(1) http_NewRequest_def)
  then show thesis
    using that [of "p_URL req"] url by (simp only: shape)
qed

lemma blofinProxyOptimized_dispatch:
  assumes "r_Path r = ''/api/'' @ X" and "pathSafe X" and "querySafe (r_RawQuery r)"
    and "validMethod (r_Method r)"
  obtains u where
    "out_calls (fst (blofinProxyOptimized env n w r)) =
       [(httpClient,
         \<lparr>p_ctx = WithTimeout RequestContext (25 * time_Second), p_Method = r_Method r,
          p_URL = u,
          p_Header = copyHeaders (unicodeLower env) (r_Header r) Map.empty,
          p_Body = r_Body r\<rparr>)]"
    and "Scheme u = ''https''" and "Opaque u = []"
    and "Host u = ''openapi.blofin.com''" and "Path u = ''/api/'' @ X"
    and "RawQuery u = r_RawQuery r" and "Fragment u = []"
proof -
  have rooted: "''/api/'' @ X = CHR ''/'' # (''api/'' @ X)"
    by simp
  obtain parsed req where
    parsed: "url_Parse (unicodeLower env) (BLOFIN_API_BASE @ ''/api/'' @ X) = Inr parsed"
    and built: "http_NewRequestWithContext (unicodeLower env)
        (WithTimeout RequestContext (25 * time_Second)) (r_Method r)
        (URL_String (parsed\<lparr>RawQuery := r_RawQuery r\<rparr>)) (r_Body r) = Inr req"
    and req: "p_ctx req = WithTimeout RequestContext (25 * time_Second)"
      "p_Method req = r_Method r" "p_Header req = Map.empty" "p_Body req = r_Body r"
    and url: "Scheme (p_URL req) = ''https''" "Opaque (p_URL req) = []"
      "Host (p_URL req) = ''openapi.blofin.com''" "Path (p_URL req) = ''/api/'' @ X"
      "RawQuery (p_URL req) = r_RawQuery r" "Fragment (p_URL req) = []"
    using target_request [OF pathSafe_api [OF assms(2)] rooted assms(3,4)] by metis
  have shape: "req\<lparr>p_Header := copyHeaders (unicodeLower env) (r_Header r) (p_Header req)\<rparr>
      = \<lparr>p_ctx = WithTimeout RequestContext (25 * time_Second), p_Method = r_Method r,
         p_URL = p_URL req,
         p_Header = copyHeaders (unicodeLower env) (r_Header r) Map.empty,
         p_Body = r_Body r\<rparr>"
    using req by (cases req) simp
  have "out_calls (fst (blofinProxyOptimized env n w r)) =
       [(httpClient,
         req\<lparr>p_Header := copyHeaders (unicodeLower env) (r_Header r) (p_Header req)\<rparr>)]"
    using parsed built
    by (cases rule: blofinProxyOptimized_cases [of env r n w])
       (simp_all add: assms(1))
  then show thesis
    using that [of "p_URL req"] url by (simp only: shape)
qed
section \<open>Where the multiplexer sends a request\<close>

lemma path_Clean_rooted: "strings_HasPrefix (path_Clean p) ''/''"
  by (simp add: path_Clean_def strings_HasPrefix_def split: list.splits)

lemma HasPrefix_append: "strings_HasPrefix s p \<Longrightarrow> strings_HasPrefix (s @ t) p"
  by (auto simp: strings_HasPrefix_def take_all_iff dest: arg_cong [where f = length])

lemma cleanPath_rooted: "strings_HasPrefix (cleanPath p) ''/''"
  by (simp add: cleanPath_def Let_def path_Clean_rooted HasPrefix_append)
     (simp add: strings_HasPrefix_def)

lemma Found_match:
  "ServeMux_Handler m method p = Found h \<Longrightarrow> mux_match m p = Some h"
  by (auto simp: ServeMux_Handler_def Let_def split: if_splits option.splits)

lemma clean_Handler:
  assumes "cleanPath p = p" and "\<not> shouldRedirect m p"
  shows "ServeMux_Handler m method p =
           (case mux_match m p of None \<Rightarrow> NoHandler | Some h \<Rightarrow> Found h)"
  using assms by (simp add: ServeMux_Handler_def Let_def)

lemma simple_match:
  "mux_match simpleMux p =
     (if p = ''/health'' then Some (corsMiddleware healthHandler)
      else if strings_HasPrefix p ''/'' then Some (corsMiddleware rootHandler)
      else None)"
  by (auto simp: mux_match_def simpleMux_def strings_HasPrefix_def)

lemma simple_no_redirect: "\<not> shouldRedirect simpleMux p"
  by (auto simp: shouldRedirect_def simpleMux_def append_eq_Cons_conv)

lemma optimized_match:
  "mux_match optimizedMux p =
     (if p = ''/health'' then Some (corsMiddlewareOpt healthHandlerOpt)
      else if p = ''/metrics'' then Some (corsMiddlewareOpt metricsHandler)
      else if strings_HasPrefix p ''/api/'' then Some (corsMiddlewareOpt blofinProxyOptimized)
      else None)"
  by (auto simp: mux_match_def optimizedMux_def strings_HasPrefix_def)

lemma optimized_redirect: "shouldRedirect optimizedMux p = (p = ''/api'')"
  by (auto simp: shouldRedirect_def optimizedMux_def append_eq_Cons_conv)

lemma rooted_not_star: "strings_HasPrefix p ''/'' \<Longrightarrow> p \<noteq> ''*''"
  by (auto simp: strings_HasPrefix_def)

lemma serveSimple_clean:
  assumes "cleanPath (r_Path r) = r_Path r"
  shows "serveSimple env r =
           (if r_Path r = ''/health'' then corsMiddleware healthHandler env newResponseWriter r
            else corsMiddleware rootHandler env newResponseWriter r)"
proof -
  have rooted: "strings_HasPrefix (r_Path r) ''/''"
    using cleanPath_rooted [of "r_Path r"] assms by simp
  then have "r_Path r \<noteq> ''*''"
    by (rule rooted_not_star)
  then show ?thesis
    by (simp add: serveSimple_def clean_Handler [OF assms simple_no_redirect] simple_match rooted)
qed

lemma serveSimple_cases:
  obtains
    (library) w where "serveSimple env r = libraryOutcome w"
  | (health) "serveSimple env r = corsMiddleware healthHandler env newResponseWriter r"
  | (root) "serveSimple env r = corsMiddleware rootHandler env newResponseWriter r"
proof (cases "r_Path r = ''*''")
  case True
  then have "serveSimple env r =
      libraryOutcome (if r_Method r = ''OPTIONS'' then globalOptionsResponse
                      else badRequestResponse r)"
    by (simp add: serveSimple_def)
  then show ?thesis
    by (rule library)
next
  case False
  show ?thesis
  proof (cases "ServeMux_Handler simpleMux (r_Method r) (r_Path r)")
    case (Found h)
    then have "mux_match simpleMux (r_Path r) = Some h"
      by (rule Found_match)
    then have "h = corsMiddleware healthHandler \<or> h = corsMiddleware rootHandler"
      by (auto simp: simple_match split: if_splits)
    then show ?thesis
      using False Found health root by (auto simp: serveSimple_def)
  next
    case (Redirect target)
    then show ?thesis
      using False library by (simp add: serveSimple_def)
  next
    case NoHandler
    then show ?thesis
      using False library by (simp add: serveSimple_def)
  qed
qed

lemma serveOptimized_clean:
  assumes "cleanPath (r_Path r) = r_Path r"
  shows "serveOptimized env n r =
           (if r_Path r = ''/health'' then corsMiddlewareOpt healthHandlerOpt env n newResponseWriter r
            else if r_Path r = ''/metrics'' then corsMiddlewareOpt metricsHandler env n newResponseWriter r
            else if strings_HasPrefix (r_Path r) ''/api/''
              then corsMiddlewareOpt blofinProxyOptimized env n newResponseWriter r
            else if r_Path r = ''/api''
              then (libraryOutcome (redirectResponse r ''/api/''), n)
            else (libraryOutcome (http_NotFound newResponseWriter), n))"
proof -
  have rooted: "strings_HasPrefix (r_Path r) ''/''"
    using cleanPath_rooted [of "r_Path r"] assms by simp
  then have star: "r_Path r \<noteq> ''*''"
    by (rule rooted_not_star)
  show ?thesis
  proof (cases "r_Path r = ''/api''")
    case True
    then show ?thesis
      by (simp add: serveOptimized_def ServeMux_Handler_def Let_def optimized_redirect
          strings_HasPrefix_def) (simp add: cleanPath_def path_Clean_def)
  next
    case False
    then have "\<not> shouldRedirect optimizedMux (r_Path r)"
      by (simp add: optimized_redirect)
    then show ?thesis
      using False star
      by (simp add: serveOptimized_def clean_Handler [OF assms] optimized_match)
  qed
qed

lemma serveOptimized_cases:
  obtains
    (library) w where "serveOptimized env n r = (libraryOutcome w, n)"
  | (health) "serveOptimized env n r = corsMiddlewareOpt healthHandlerOpt env n newResponseWriter r"
  | (metrics) "serveOptimized env n r = corsMiddlewareOpt metricsHandler env n newResponseWriter r"
  | (api) "strings_HasPrefix (r_Path r) ''/api/''"
      "serveOptimized env n r = corsMiddlewareOpt blofinProxyOptimized env n newResponseWriter r"
proof (cases "r_Path r = ''*''")
  case True
  then have "serveOptimized env n r =
      (libraryOutcome (if r_Method r = ''OPTIONS'' then globalOptionsResponse
                       else badRequestResponse r), n)"
    by (simp add: serveOptimized_def)
  then show ?thesis
    by (rule library)
next
  case False
  show ?thesis
  proof (cases "ServeMux_Handler optimizedMux (r_Method r) (r_Path r)")
    case (Found h)
    then have "mux_match optimizedMux (r_Path r) = Some h"
      by (rule Found_match)
    then consider "h = corsMiddlewareOpt healthHandlerOpt"
      | "h = corsMiddlewareOpt metricsHandler"
      | "strings_HasPrefix (r_Path r) ''/api/''" "h = corsMiddlewareOpt blofinProxyOptimized"
      by (auto simp: optimized_match split: if_splits)
    then show ?thesis
      using False Found health metrics api by cases (auto simp: serveOptimized_def)
  next
    case (Redirect target)
    then show ?thesis
      using False library by (simp add: serveOptimized_def)
  next
    case NoHandler
    then show ?thesis
      using False library by (simp add: serveOptimized_def)
  qed
qed

section \<open>What a response writer holds in the end\<close>

lemma w_Set_fields [simp]:
  "w_status (w_Set k v w) = w_status w" "w_body (w_Set k v w) = w_body w"
  "w_sent (w_Set k v w) = w_sent w"
  by (simp_all add: w_Set_def)

lemma setCorsHeaders_fields [simp]:
  "w_status (setCorsHeaders w) = w_status w" "w_body (setCorsHeaders w) = w_body w"
  by (simp_all add: setCorsHeaders_def)

lemma newResponseWriter_fields [simp]:
  "w_status newResponseWriter = None" "w_body newResponseWriter = []"
  by (simp_all add: newResponseWriter_def)

lemma finish_WriteHeader:
  "w_status w = None \<Longrightarrow> 200 \<le> code \<Longrightarrow> code \<le> 999 \<Longrightarrow>
     finish (WriteHeader code w) = \<lparr>status = code, headers = w_Header w, body = w_body w\<rparr>"
  by (simp add: finish_def WriteHeader_def)

lemma finish_http_Error:
  assumes "w_status w = None" and "200 \<le> code" and "code \<le> 999"
  shows "status (finish (http_Error w msg code)) = code"
    and "body (finish (http_Error w msg code)) = w_body w @ msg @ newline"
  using assms by (simp_all add: finish_def http_Error_def Write_def WriteHeader_def Let_def)

lemma libraryOutcome_fields [simp]:
  "out_calls (libraryOutcome w) = []" "out_log (libraryOutcome w) = []" "out_w (libraryOutcome w) = w"
  by (simp_all add: libraryOutcome_def)

lemma health_quiet [simp]:
  "out_calls (corsMiddleware healthHandler env w r) = []"
  "out_log (corsMiddleware healthHandler env w r) = []"
  by (simp_all add: corsMiddleware_def healthHandler_def Let_def)

lemma root_quiet:
  assumes "\<not> strings_HasPrefix (r_Path r) ''/api/'' \<or> r_Method r = ''OPTIONS''"
  shows "out_calls (corsMiddleware rootHandler env w r) = []"
    and "out_log (corsMiddleware rootHandler env w r) = []"
  using assms by (auto simp: corsMiddleware_def rootHandler_def Let_def)

lemma opt_quiet [simp]:
  "out_calls (fst (corsMiddlewareOpt healthHandlerOpt env n w r)) = []"
  "snd (corsMiddlewareOpt healthHandlerOpt env n w r) = n"
  "out_calls (fst (corsMiddlewareOpt metricsHandler env n w r)) = []"
  "snd (corsMiddlewareOpt metricsHandler env n w r) = n"
  by (simp_all add: corsMiddlewareOpt_def healthHandlerOpt_def metricsHandler_def Let_def)

lemma opt_options_quiet:
  assumes "r_Method r = ''OPTIONS''"
  shows "out_calls (fst (corsMiddlewareOpt next env n w r)) = []"
    and "snd (corsMiddlewareOpt next env n w r) = n"
  using assms by (simp_all add: corsMiddlewareOpt_def Let_def)

lemma serveSimple_forwarder_reached:
  assumes "out_calls (serveSimple env r) \<noteq> [] \<or> out_log (serveSimple env r) \<noteq> []"
  shows "strings_HasPrefix (r_Path r) ''/api/''" and "r_Method r \<noteq> ''OPTIONS''"
    and "serveSimple env r = corsMiddleware rootHandler env newResponseWriter r"
proof -
  have root: "serveSimple env r = corsMiddleware rootHandler env newResponseWriter r"
    using assms by (cases rule: serveSimple_cases [of env r]) simp_all
  then show "serveSimple env r = corsMiddleware rootHandler env newResponseWriter r" .
  show "strings_HasPrefix (r_Path r) ''/api/''"
    using assms root root_quiet [of r env newResponseWriter] by auto
  show "r_Method r \<noteq> ''OPTIONS''"
    using assms root root_quiet [of r env newResponseWriter] by auto
qed

lemma serveOptimized_forwarder_reached:
  assumes "out_calls (fst (serveOptimized env n r)) \<noteq> [] \<or> snd (serveOptimized env n r) \<noteq> n"
  shows "strings_HasPrefix (r_Path r) ''/api/''" and "r_Method r \<noteq> ''OPTIONS''"
    and "serveOptimized env n r = blofinProxyOptimized env n (setCorsHeaders newResponseWriter) r"
proof -
  have api: "strings_HasPrefix (r_Path r) ''/api/''
      \<and> serveOptimized env n r = corsMiddlewareOpt blofinProxyOptimized env n newResponseWriter r"
    using assms by (cases rule: serveOptimized_cases [of env n r]) simp_all
  then show "strings_HasPrefix (r_Path r) ''/api/''" by simp
  show m: "r_Method r \<noteq> ''OPTIONS''"
    using assms api opt_options_quiet [of r blofinProxyOptimized env n newResponseWriter] by auto
  show "serveOptimized env n r = blofinProxyOptimized env n (setCorsHeaders newResponseWriter) r"
    using api m by (simp add: corsMiddlewareOpt_def Let_def)
qed

lemma cleanPath_api: "cleanPath ''/api'' = ''/api''"
  by code_simp

lemma simple_api_root:
  "r_Path r = ''/api'' \<Longrightarrow> serveSimple env r = corsMiddleware rootHandler env newResponseWriter r"
  using serveSimple_clean [of r env] by (simp add: cleanPath_api)

lemma optimized_api_redirect:
  "r_Path r = ''/api'' \<Longrightarrow>
     serveOptimized env n r = (libraryOutcome (redirectResponse r ''/api/''), n)"
  by (simp add: serveOptimized_def ServeMux_Handler_def Let_def optimized_redirect cleanPath_api)

section \<open>The CORS headers stay first\<close>

lemma fixed_keys_canonical:
  "CanonicalMIMEHeaderKey ''Content-Type'' = ''Content-Type''"
  "CanonicalMIMEHeaderKey ''X-Content-Type-Options'' = ''X-Content-Type-Options''"
  "CanonicalMIMEHeaderKey ''Access-Control-Allow-Origin'' = ''Access-Control-Allow-Origin''"
  "CanonicalMIMEHeaderKey ''Access-Control-Allow-Methods'' = ''Access-Control-Allow-Methods''"
  "CanonicalMIMEHeaderKey ''Access-Control-Allow-Headers'' = ''Access-Control-Allow-Headers''"
  "CanonicalMIMEHeaderKey ''Access-Control-Max-Age'' = ''Access-Control-Max-Age''"
  by code_simp+

lemma hasFirst_Get: "hasFirst (CanonicalMIMEHeaderKey key) v h \<Longrightarrow> Header_Get h key = v"
  by (auto simp: hasFirst_def Header_Get_def split: option.splits list.splits)

lemma keepsFirst_w_Set:
  "keepsFirst k v w \<Longrightarrow> CanonicalMIMEHeaderKey key \<noteq> k \<Longrightarrow> keepsFirst k v (w_Set key x w)"
  by (simp add: keepsFirst_def w_Set_def Header_Set_def hasFirst_def)

lemma keepsFirst_WriteHeader: "keepsFirst k v w \<Longrightarrow> keepsFirst k v (WriteHeader code w)"
  by (auto simp: keepsFirst_def WriteHeader_def)

lemma keepsFirst_Write: "keepsFirst k v w \<Longrightarrow> keepsFirst k v (Write bytes w)"
  by (auto simp: keepsFirst_def Write_def WriteHeader_def Let_def)

lemma keepsFirst_finish: "keepsFirst k v w \<Longrightarrow> hasFirst k v (headers (finish w))"
  by (auto simp: keepsFirst_def finish_def split: option.splits)

lemma keepsFirst_http_Error:
  assumes "keepsFirst k v w" and "k \<noteq> ''Content-Type''" and "k \<noteq> ''X-Content-Type-Options''"
  shows "keepsFirst k v (http_Error w msg code)"
  unfolding http_Error_def
  using assms
  by (intro keepsFirst_Write keepsFirst_WriteHeader keepsFirst_w_Set)
     (simp_all add: fixed_keys_canonical)

lemma hasFirst_copy: "hasFirst k v h \<Longrightarrow> hasFirst k v (copyHeaders ul src h)"
  by (auto simp: hasFirst_def copyHeaders_lookup Header_Values_def split: option.splits list.splits)

lemma keepsFirst_copy:
  "keepsFirst k v w \<Longrightarrow> keepsFirst k v (w\<lparr>w_Header := copyHeaders ul src (w_Header w)\<rparr>)"
  by (simp add: keepsFirst_def hasFirst_copy)

lemma keepsFirst_io_Copy: "keepsFirst k v w \<Longrightarrow> keepsFirst k v (fst (io_Copy w resp))"
  by (simp add: io_Copy_def keepsFirst_Write)

lemma keepsFirst_blofinProxy:
  assumes "keepsFirst k v w" and "k \<noteq> ''Content-Type''" and "k \<noteq> ''X-Content-Type-Options''"
  shows "keepsFirst k v (out_w (blofinProxy env w r))"
  by (cases rule: blofinProxy_cases [of env r w])
     (simp_all add: assms keepsFirst_http_Error keepsFirst_io_Copy keepsFirst_WriteHeader
        keepsFirst_copy)

lemma keepsFirst_blofinProxyOptimized:
  assumes "keepsFirst k v w" and "k \<noteq> ''Content-Type''" and "k \<noteq> ''X-Content-Type-Options''"
  shows "keepsFirst k v (out_w (fst (blofinProxyOptimized env n w r)))"
  by (cases rule: blofinProxyOptimized_cases [of env r n w])
     (simp_all add: assms keepsFirst_http_Error keepsFirst_io_Copy keepsFirst_WriteHeader
        keepsFirst_copy)

lemma keepsFirst_json:
  assumes "keepsFirst k v w" and "k \<noteq> ''Content-Type''"
  shows "keepsFirst k v (Write bytes (w_Set ''Content-Type'' ''application/json'' w))"
  using assms by (intro keepsFirst_Write keepsFirst_w_Set) (simp_all add: fixed_keys_canonical)

lemma keepsFirst_rootHandler:
  assumes "keepsFirst k v w" and "k \<noteq> ''Content-Type''" and "k \<noteq> ''X-Content-Type-Options''"
  shows "keepsFirst k v (out_w (rootHandler env w r))"
  using assms
  by (simp add: rootHandler_def Let_def http_NotFound_def keepsFirst_http_Error
      keepsFirst_blofinProxy keepsFirst_json)

lemma keepsFirst_handlers:
  assumes "keepsFirst k v w" and "k \<noteq> ''Content-Type''"
  shows "keepsFirst k v (out_w (healthHandler env w r))"
    and "keepsFirst k v (out_w (fst (healthHandlerOpt env n w r)))"
    and "keepsFirst k v (out_w (fst (metricsHandler env n w r)))"
  using assms
  by (simp_all add: healthHandler_def healthHandlerOpt_def metricsHandler_def Let_def
      keepsFirst_json)

lemma keepsFirst_setCorsHeaders:
  assumes "w_status w = None"
  shows "keepsFirst ''Access-Control-Allow-Origin'' ''*'' (setCorsHeaders w)"
    and "keepsFirst ''Access-Control-Allow-Methods'' ''GET, POST, PUT, PATCH, DELETE, OPTIONS''
           (setCorsHeaders w)"
  using assms
  by (simp_all add: keepsFirst_def hasFirst_def setCorsHeaders_def w_Set_def Header_Set_def
      fixed_keys_canonical)

lemma corsDeclared_finish:
  assumes "keepsFirst ''Access-Control-Allow-Origin'' ''*'' w"
    and "keepsFirst ''Access-Control-Allow-Methods'' ''GET, POST, PUT, PATCH, DELETE, OPTIONS'' w"
  shows "corsDeclared (headers (finish w))"
proof -
  have "hasFirst (CanonicalMIMEHeaderKey ''Access-Control-Allow-Origin'') ''*'' (headers (finish w))"
    using assms(1) by (simp add: fixed_keys_canonical keepsFirst_finish)
  moreover have "hasFirst (CanonicalMIMEHeaderKey ''Access-Control-Allow-Methods'')
      ''GET, POST, PUT, PATCH, DELETE, OPTIONS'' (headers (finish w))"
    using assms(2) by (simp add: fixed_keys_canonical keepsFirst_finish)
  ultimately show ?thesis
    by (simp only: corsDeclared_def hasFirst_Get)
qed

text \<open>Every handler behind the middleware answers with the CORS headers declared.\<close>

lemma cors_simple_handlers:
  "corsDeclared (headers (finish (out_w (corsMiddleware healthHandler env newResponseWriter r))))"
  "corsDeclared (headers (finish (out_w (corsMiddleware rootHandler env newResponseWriter r))))"
  by (rule corsDeclared_finish;
      simp add: corsMiddleware_def Let_def keepsFirst_WriteHeader keepsFirst_handlers
        keepsFirst_rootHandler keepsFirst_setCorsHeaders)+

lemma cors_optimized_handlers:
  "corsDeclared (headers (finish (out_w (fst (corsMiddlewareOpt healthHandlerOpt env n newResponseWriter r)))))"
  "corsDeclared (headers (finish (out_w (fst (corsMiddlewareOpt metricsHandler env n newResponseWriter r)))))"
  "corsDeclared (headers (finish (out_w (fst (corsMiddlewareOpt blofinProxyOptimized env n newResponseWriter r)))))"
  by (rule corsDeclared_finish;
      simp add: corsMiddlewareOpt_def Let_def keepsFirst_WriteHeader keepsFirst_handlers
        keepsFirst_blofinProxyOptimized keepsFirst_setCorsHeaders)+

lemma preflight_fixed:
  "preflightResponse (finish (WriteHeader 200 (setCorsHeaders newResponseWriter)))"
  by code_simp

lemma corsMiddleware_options:
  "r_Method r = ''OPTIONS'' \<Longrightarrow>
     corsMiddleware next env w r = \<lparr>out_w = WriteHeader 200 (setCorsHeaders w), out_log = [], out_calls = []\<rparr>"
  by (simp add: corsMiddleware_def Let_def)

lemma corsMiddlewareOpt_options:
  "r_Method r = ''OPTIONS'' \<Longrightarrow>
     corsMiddlewareOpt next env n w r =
       (\<lparr>out_w = WriteHeader 200 (setCorsHeaders w), out_log = [], out_calls = []\<rparr>, n)"
  by (simp add: corsMiddlewareOpt_def Let_def)

section \<open>The forwarder behind the server\<close>

lemma serveSimple_forwarded:
  assumes "out_calls (serveSimple env r) \<noteq> [] \<or> out_log (serveSimple env r) \<noteq> []"
  shows "serveSimple env r =
           (blofinProxy env (setCorsHeaders newResponseWriter) r)
             \<lparr>out_log := ApiRouteDetected (r_Path r)
                          # out_log (blofinProxy env (setCorsHeaders newResponseWriter) r)\<rparr>"
proof -
  note reached = serveSimple_forwarder_reached [OF assms]
  have "r_Path r \<noteq> ''/''"
    using reached(1) by (auto simp: strings_HasPrefix_def)
  then show ?thesis
    using reached by (simp add: corsMiddleware_def rootHandler_def Let_def)
qed

lemma blofinProxy_failed:
  assumes "out_calls (blofinProxy env w r) = [call]"
    and "upstream env (fst call) (snd call) = Inl err"
  shows "out_w (blofinProxy env w r) = http_Error w ''Proxy request failed'' 502
       \<and> out_log (blofinProxy env w r) = [ProxyRequestFailed err]"
  by (cases rule: blofinProxy_cases [of env r w]) (use assms in auto)

lemma blofinProxyOptimized_failed:
  assumes "out_calls (fst (blofinProxyOptimized env n w r)) = [call]"
    and "upstream env (fst call) (snd call) = Inl err"
  shows "out_w (fst (blofinProxyOptimized env n w r)) = http_Error w ''Proxy request failed'' 502
       \<and> out_log (fst (blofinProxyOptimized env n w r)) =
           (if debugEnabled env then [ProxyRequestFailed err] else [])"
  by (cases rule: blofinProxyOptimized_cases [of env r n w]) (use assms in auto)

lemma blofinProxyOptimized_count: "snd (blofinProxyOptimized env n w r) = n + 1"
  by (cases rule: blofinProxyOptimized_cases [of env r n w]) simp_all

lemma serveSimple_call:
  assumes "call \<in> set (out_calls (serveSimple env r))"
  shows "call \<in> set (out_calls (blofinProxy env (setCorsHeaders newResponseWriter) r))"
proof -
  have "out_calls (serveSimple env r) \<noteq> [] \<or> out_log (serveSimple env r) \<noteq> []"
    using assms by auto
  from serveSimple_forwarded [OF this] assms show ?thesis
    by simp
qed

lemma serveOptimized_call:
  assumes "call \<in> set (out_calls (fst (serveOptimized env n r)))"
  shows "call \<in> set (out_calls (fst (blofinProxyOptimized env n (setCorsHeaders newResponseWriter) r)))"
proof -
  have "out_calls (fst (serveOptimized env n r)) \<noteq> [] \<or> snd (serveOptimized env n r) \<noteq> n"
    using assms by auto
  from serveOptimized_forwarder_reached(3) [OF this] assms show ?thesis
    by simp
qed


section \<open>The counter behind the server\<close>

lemma not_api_paths:
  "\<not> strings_HasPrefix ''*'' ''/api/''" "\<not> strings_HasPrefix ''/api'' ''/api/''"
  "\<not> strings_HasPrefix ''/health'' ''/api/''" "\<not> strings_HasPrefix ''/metrics'' ''/api/''"
  by (simp_all add: strings_HasPrefix_def)

lemma corsMiddlewareOpt_count:
  "snd (corsMiddlewareOpt blofinProxyOptimized env n w r) = (if r_Method r = ''OPTIONS'' then n else n + 1)"
  by (simp add: corsMiddlewareOpt_def Let_def blofinProxyOptimized_count)

lemma serveOptimized_count:
  "snd (serveOptimized env n r) = (if entersForwarder r then n + 1 else n)"
proof (cases "r_Path r = ''*''")
  case True
  then show ?thesis
    by (simp add: serveOptimized_def entersForwarder_def not_api_paths)
next
  case star: False
  show ?thesis
  proof (cases "r_Method r = ''CONNECT''")
    case True
    then show ?thesis
      using star
      by (auto simp: serveOptimized_def ServeMux_Handler_def optimized_redirect optimized_match
          entersForwarder_def not_api_paths corsMiddlewareOpt_count)
  next
    case verb: False
    show ?thesis
    proof (cases "cleanPath (r_Path r) = r_Path r")
      case True
      then show ?thesis
        using verb
        by (auto simp: serveOptimized_clean [OF True] entersForwarder_def not_api_paths
            corsMiddlewareOpt_count opt_quiet)
    next
      case False
      then have "snd (serveOptimized env n r) = n"
        using star verb
        by (simp add: serveOptimized_def ServeMux_Handler_def Let_def)
      then show ?thesis
        using False verb by (simp add: entersForwarder_def)
    qed
  qed
qed

lemma serveOptimized_calls_enter:
  "out_calls (fst (serveOptimized env n r)) \<noteq> [] \<Longrightarrow> entersForwarder r"
proof -
  assume calls: "out_calls (fst (serveOptimized env n r)) \<noteq> []"
  then have "serveOptimized env n r = blofinProxyOptimized env n (setCorsHeaders newResponseWriter) r"
    by (intro serveOptimized_forwarder_reached(3)) simp
  then have "snd (serveOptimized env n r) = n + 1"
    by (simp add: blofinProxyOptimized_count)
  then show ?thesis
    by (simp add: serveOptimized_count split: if_splits)
qed

section \<open>A clean path under the prefix is handed to the forwarder\<close>

lemma api_prefix_paths:
  assumes "strings_HasPrefix p ''/api/''"
  shows "p \<noteq> ''/health''" and "p \<noteq> ''/metrics''" and "p \<noteq> ''/''"
  using assms by (auto simp: strings_HasPrefix_def)

lemma serveSimple_api:
  assumes "strings_HasPrefix (r_Path r) ''/api/''" and "cleanPath (r_Path r) = r_Path r"
    and "r_Method r \<noteq> ''OPTIONS''"
  shows "out_calls (serveSimple env r) = out_calls (blofinProxy env (setCorsHeaders newResponseWriter) r)"
    and "out_w (serveSimple env r) = out_w (blofinProxy env (setCorsHeaders newResponseWriter) r)"
  using assms api_prefix_paths [OF assms(1)]
  by (simp_all add: serveSimple_clean [OF assms(2)] corsMiddleware_def rootHandler_def Let_def)

lemma serveOptimized_api:
  assumes "strings_HasPrefix (r_Path r) ''/api/''" and "cleanPath (r_Path r) = r_Path r"
    and "r_Method r \<noteq> ''OPTIONS''"
  shows "serveOptimized env n r = blofinProxyOptimized env n (setCorsHeaders newResponseWriter) r"
  using assms api_prefix_paths [OF assms(1)]
  by (simp add: serveOptimized_clean [OF assms(2)] corsMiddlewareOpt_def Let_def)

lemma api_prefix: "strings_HasPrefix (''/api/'' @ X) ''/api/''"
  by (simp add: strings_HasPrefix_def)

lemma served_dispatch:
  assumes "r_Path r = ''/api/'' @ X" and "cleanPath (r_Path r) = r_Path r" and "pathSafe X"
    and "querySafe (r_RawQuery r)" and "validMethod (r_Method r)" and "r_Method r \<noteq> ''OPTIONS''"
  shows "length (out_calls (serveSimple env r)) = 1"
    and "length (out_calls (fst (serveOptimized env n r))) = 1"
proof -
  have pre: "strings_HasPrefix (r_Path r) ''/api/''"
    by (simp only: assms(1) api_prefix)
  obtain u where "out_calls (blofinProxy env (setCorsHeaders newResponseWriter) r) =
       [(\<lparr>Timeout = 30 * time_Second\<rparr>,
         \<lparr>p_ctx = Background, p_Method = r_Method r, p_URL = u,
          p_Header = copyHeaders (unicodeLower env) (r_Header r) Map.empty,
          p_Body = r_Body r\<rparr>)]"
    using blofinProxy_dispatch [OF assms(1,3,4,5)] by blast
  then show "length (out_calls (serveSimple env r)) = 1"
    by (simp add: serveSimple_api(1) [OF pre assms(2,6)])
  obtain u' where "out_calls (fst (blofinProxyOptimized env n (setCorsHeaders newResponseWriter) r)) =
       [(httpClient,
         \<lparr>p_ctx = WithTimeout RequestContext (25 * time_Second), p_Method = r_Method r,
          p_URL = u',
          p_Header = copyHeaders (unicodeLower env) (r_Header r) Map.empty,
          p_Body = r_Body r\<rparr>)]"
    using blofinProxyOptimized_dispatch [OF assms(1,3,4,5)] by blast
  then show "length (out_calls (fst (serveOptimized env n r))) = 1"
    by (simp add: serveOptimized_api [OF pre assms(2,6)])
qed
section \<open>Header hygiene\<close>

text \<open>
  C2. A header whose name is on the denylist, whatever its case, is absent from the
  outbound request of every upstream call and from the response that the forwarder's
  registered handler returns, in both variants, whatever the inbound request and the
  upstream response carry.
\<close>

theorem hop_by_hop_headers_absent:
  assumes "denylisted name"
  shows "(\<forall>call \<in> set (out_calls (corsMiddleware rootHandler env newResponseWriter r)).
            p_Header (snd call) name = None)
       \<and> headers (finish (out_w (corsMiddleware rootHandler env newResponseWriter r))) name = None
       \<and> (\<forall>call \<in> set (out_calls (fst (corsMiddlewareOpt blofinProxyOptimized env n newResponseWriter r))).
            p_Header (snd call) name = None)
       \<and> headers (finish (out_w (fst (corsMiddlewareOpt blofinProxyOptimized env n newResponseWriter r)))) name = None"
proof -
  have hop: "isHopByHopHeader (unicodeLower env) name"
    using assms by (rule denylisted_hop)
  have fresh: "keyAbsent name (setCorsHeaders newResponseWriter)"
    using hop by (intro keyAbsent_setCorsHeaders keyAbsent_new)
  have out1: "\<forall>call \<in> set (out_calls (corsMiddleware rootHandler env newResponseWriter r)).
      p_Header (snd call) name = None"
  proof
    fix call
    assume "call \<in> set (out_calls (corsMiddleware rootHandler env newResponseWriter r))"
    then have "call \<in> set (out_calls (blofinProxy env (setCorsHeaders newResponseWriter) r))"
      by (simp add: corsMiddleware_calls rootHandler_calls split: if_splits)
    from blofinProxy_calls(3) [OF this] show "p_Header (snd call) name = None"
      by (simp add: copyHeaders_hop hop)
  qed
  have resp1: "keyAbsent name (out_w (corsMiddleware rootHandler env newResponseWriter r))"
    by (simp add: corsMiddleware_def Let_def keyAbsent_rootHandler keyAbsent_WriteHeader hop fresh)
  have out2: "\<forall>call \<in> set (out_calls (fst (corsMiddlewareOpt blofinProxyOptimized env n newResponseWriter r))).
      p_Header (snd call) name = None"
  proof
    fix call
    assume "call \<in> set (out_calls (fst (corsMiddlewareOpt blofinProxyOptimized env n newResponseWriter r)))"
    then have "call \<in> set (out_calls (fst (blofinProxyOptimized env n (setCorsHeaders newResponseWriter) r)))"
      by (simp add: corsMiddlewareOpt_calls split: if_splits)
    from blofinProxyOptimized_calls(3) [OF this] show "p_Header (snd call) name = None"
      by (simp add: copyHeaders_hop hop)
  qed
  have resp2: "keyAbsent name (out_w (fst (corsMiddlewareOpt blofinProxyOptimized env n newResponseWriter r)))"
    by (simp add: corsMiddlewareOpt_def Let_def keyAbsent_blofinProxyOptimized
        keyAbsent_WriteHeader hop fresh)
  show ?thesis
    using out1 out2 resp1 resp2 by (simp add: keyAbsent_finish)
qed

theorem hop_by_hop_headers_absent_witness:
  "denylisted ''transfer-ENCODING''
   \<and> length (out_calls (corsMiddleware rootHandler answeringEnv newResponseWriter
               (exampleRequest ''GET'' ''/api/v1/market/tickers''))) = 1
   \<and> p_Header (snd (hd (out_calls (corsMiddleware rootHandler answeringEnv newResponseWriter
               (exampleRequest ''GET'' ''/api/v1/market/tickers''))))) ''transfer-ENCODING'' = None
   \<and> headers (finish (out_w (corsMiddleware rootHandler answeringEnv newResponseWriter
               (exampleRequest ''GET'' ''/api/v1/market/tickers'')))) ''transfer-ENCODING'' = None
   \<and> status (finish (out_w (corsMiddleware rootHandler answeringEnv newResponseWriter
               (exampleRequest ''GET'' ''/api/v1/market/tickers'')))) = 200"
proof -
  have deny: "denylisted ''transfer-ENCODING''"
    by code_simp
  have one: "length (out_calls (corsMiddleware rootHandler answeringEnv newResponseWriter
               (exampleRequest ''GET'' ''/api/v1/market/tickers''))) = 1"
    by code_simp
  have ok: "status (finish (out_w (corsMiddleware rootHandler answeringEnv newResponseWriter
               (exampleRequest ''GET'' ''/api/v1/market/tickers'')))) = 200"
    by code_simp
  note inst = hop_by_hop_headers_absent [OF deny, of answeringEnv
      "exampleRequest ''GET'' ''/api/v1/market/tickers''" 0]
  from one have "hd (out_calls (corsMiddleware rootHandler answeringEnv newResponseWriter
               (exampleRequest ''GET'' ''/api/v1/market/tickers'')))
        \<in> set (out_calls (corsMiddleware rootHandler answeringEnv newResponseWriter
               (exampleRequest ''GET'' ''/api/v1/market/tickers'')))"
    by (cases "out_calls (corsMiddleware rootHandler answeringEnv newResponseWriter
               (exampleRequest ''GET'' ''/api/v1/market/tickers''))") simp_all
  with inst deny one ok show ?thesis
    by blast
qed

text \<open>
  C3. A header of the inbound request whose name is not on the denylist reaches the
  outbound request with exactly its list of values: the same values, in the same order,
  each as often as it came. The inbound header map is the one \<open>net/http\<close> hands to a
  handler: its names are tokens and its keys are pairwise different canonical keys; the
  outbound key is the canonical form of the name. This holds for every upstream call of
  either variant, and for an inbound path \<open>/api/X\<close>, a query and a method that can be
  built into a request, each variant makes exactly one upstream call, which carries
  these values.
\<close>

theorem forwarded_header_values_preserved:
  assumes "distinct (map (\<lambda>e. CanonicalMIMEHeaderKey (fst e)) (r_Header r))"
    and "(name, vs) \<in> set (r_Header r)"
    and "list_all validHeaderFieldByte name"
    and "\<not> denylisted name"
  shows "(\<forall>call \<in> set (out_calls (blofinProxy env w r))
                   \<union> set (out_calls (fst (blofinProxyOptimized env n w r))).
            Header_Values (p_Header (snd call)) (CanonicalMIMEHeaderKey name) = vs)
       \<and> (r_Path r = ''/api/'' @ X \<and> pathSafe X \<and> querySafe (r_RawQuery r)
            \<and> validMethod (r_Method r) \<longrightarrow>
          map (\<lambda>call. Header_Values (p_Header (snd call)) (CanonicalMIMEHeaderKey name))
            (out_calls (blofinProxy env w r)) = [vs]
          \<and> map (\<lambda>call. Header_Values (p_Header (snd call)) (CanonicalMIMEHeaderKey name))
              (out_calls (fst (blofinProxyOptimized env n w r))) = [vs])"
proof -
  have kept: "\<not> isHopByHopHeader (unicodeLower env) name"
    using assms(3,4) by (simp add: token_hop_iff)
  have vals: "forwarded (unicodeLower env) (r_Header r) (CanonicalMIMEHeaderKey name) = vs"
    using assms(1,2) kept by (rule forwarded_single)
  have copied: "Header_Values (copyHeaders (unicodeLower env) (r_Header r) Map.empty)
      (CanonicalMIMEHeaderKey name) = vs"
    using vals by (simp add: copyHeaders_lookup Header_Values_def)
  have every: "Header_Values (p_Header (snd call)) (CanonicalMIMEHeaderKey name) = vs"
    if "call \<in> set (out_calls (blofinProxy env w r))
                   \<union> set (out_calls (fst (blofinProxyOptimized env n w r)))" for call
  proof -
    have "p_Header (snd call) = copyHeaders (unicodeLower env) (r_Header r) Map.empty"
      using that blofinProxy_calls(3) blofinProxyOptimized_calls(3) by blast
    then show ?thesis
      by (simp only: copied)
  qed
  have single: "map (\<lambda>call. Header_Values (p_Header (snd call)) (CanonicalMIMEHeaderKey name))
            (out_calls (blofinProxy env w r)) = [vs]
          \<and> map (\<lambda>call. Header_Values (p_Header (snd call)) (CanonicalMIMEHeaderKey name))
              (out_calls (fst (blofinProxyOptimized env n w r))) = [vs]"
    if route: "r_Path r = ''/api/'' @ X" "pathSafe X" "querySafe (r_RawQuery r)"
      "validMethod (r_Method r)"
  proof -
    obtain u where "out_calls (blofinProxy env w r) =
       [(\<lparr>Timeout = 30 * time_Second\<rparr>,
         \<lparr>p_ctx = Background, p_Method = r_Method r, p_URL = u,
          p_Header = copyHeaders (unicodeLower env) (r_Header r) Map.empty,
          p_Body = r_Body r\<rparr>)]"
      using blofinProxy_dispatch [OF route] by blast
    moreover obtain u' where "out_calls (fst (blofinProxyOptimized env n w r)) =
       [(httpClient,
         \<lparr>p_ctx = WithTimeout RequestContext (25 * time_Second), p_Method = r_Method r,
          p_URL = u',
          p_Header = copyHeaders (unicodeLower env) (r_Header r) Map.empty,
          p_Body = r_Body r\<rparr>)]"
      using blofinProxyOptimized_dispatch [OF route] by blast
    ultimately show ?thesis
      by (simp add: copied)
  qed
  show ?thesis
    using every single by blast
qed

theorem forwarded_header_values_preserved_witness:
  "distinct (map (\<lambda>e. CanonicalMIMEHeaderKey (fst e))
      (r_Header (exampleRequest ''GET'' ''/api/v1/market/tickers'')))
   \<and> (''X-Trace'', [''a'', ''b'', ''a'']) \<in> set (r_Header (exampleRequest ''GET'' ''/api/v1/market/tickers''))
   \<and> map (\<lambda>call. Header_Values (p_Header (snd call)) (CanonicalMIMEHeaderKey ''X-Trace''))
        (out_calls (blofinProxy answeringEnv newResponseWriter
           (exampleRequest ''GET'' ''/api/v1/market/tickers''))) = [[''a'', ''b'', ''a'']]
   \<and> map (\<lambda>call. Header_Values (p_Header (snd call)) (CanonicalMIMEHeaderKey ''X-Trace''))
        (out_calls (fst (blofinProxyOptimized answeringEnv 0 newResponseWriter
           (exampleRequest ''GET'' ''/api/v1/market/tickers'')))) = [[''a'', ''b'', ''a'']]"
proof -
  let ?r = "exampleRequest ''GET'' ''/api/v1/market/tickers''"
  have keys: "distinct (map (\<lambda>e. CanonicalMIMEHeaderKey (fst e)) (r_Header ?r))"
    by code_simp
  have entry: "(''X-Trace'', [''a'', ''b'', ''a'']) \<in> set (r_Header ?r)"
    by (simp add: exampleRequest_def)
  have token: "list_all validHeaderFieldByte ''X-Trace''"
    by code_simp
  have allowed: "\<not> denylisted ''X-Trace''"
    by code_simp
  have route: "r_Path ?r = ''/api/'' @ ''v1/market/tickers''"
    by (simp add: exampleRequest_def)
  have safe: "pathSafe ''v1/market/tickers''"
    by code_simp
  have qsafe: "querySafe (r_RawQuery ?r)"
    by code_simp
  have verb: "validMethod (r_Method ?r)"
    by code_simp
  from forwarded_header_values_preserved [OF keys entry token allowed,
      of answeringEnv newResponseWriter 0 "''v1/market/tickers''"]
    keys entry route safe qsafe verb
  show ?thesis by blast
qed

text \<open>
  C9. A forwarded header travels under the canonical form of its name: the key is present
  on the outbound request, it has the first letter and each letter after a hyphen in
  upper case and no other letter in upper case, it is the client's name up to case, and a
  name that is not already canonical is not a key of the outbound request. Header names
  are tokens, as \<open>net/http\<close> admits no other. This holds for every upstream call of
  either variant, and for an inbound path \<open>/api/X\<close>, a query and a method that can be
  built into a request, each variant makes exactly one upstream call, whose header map
  has the canonical key.
\<close>

theorem forwarded_header_names_canonical:
  assumes "(name, vs) \<in> set (r_Header r)"
    and "\<not> denylisted name"
    and "vs \<noteq> []"
    and "list_all validHeaderFieldByte name"
  shows "(\<forall>call \<in> set (out_calls (blofinProxy env w r))
                   \<union> set (out_calls (fst (blofinProxyOptimized env n w r))).
            p_Header (snd call) (CanonicalMIMEHeaderKey name) \<noteq> None
            \<and> (name \<noteq> CanonicalMIMEHeaderKey name \<longrightarrow> p_Header (snd call) name = None))
       \<and> mimeCanonicalForm True (CanonicalMIMEHeaderKey name)
       \<and> map lowerByte (CanonicalMIMEHeaderKey name) = map lowerByte name
       \<and> (r_Path r = ''/api/'' @ X \<and> pathSafe X \<and> querySafe (r_RawQuery r)
            \<and> validMethod (r_Method r) \<longrightarrow>
          map (\<lambda>call. p_Header (snd call) (CanonicalMIMEHeaderKey name) \<noteq> None
                       \<and> (name = CanonicalMIMEHeaderKey name \<or> p_Header (snd call) name = None))
            (out_calls (blofinProxy env w r)) = [True]
          \<and> map (\<lambda>call. p_Header (snd call) (CanonicalMIMEHeaderKey name) \<noteq> None
                       \<and> (name = CanonicalMIMEHeaderKey name \<or> p_Header (snd call) name = None))
              (out_calls (fst (blofinProxyOptimized env n w r))) = [True])"
proof -
  let ?h = "copyHeaders (unicodeLower env) (r_Header r) Map.empty"
  have kept: "\<not> isHopByHopHeader (unicodeLower env) name"
    using assms(2,4) by (simp add: token_hop_iff)
  have "forwarded (unicodeLower env) (r_Header r) (CanonicalMIMEHeaderKey name) \<noteq> []"
    using assms(1) kept assms(3) by (rule forwarded_present)
  then have present: "?h (CanonicalMIMEHeaderKey name) \<noteq> None"
    by (simp add: copyHeaders_lookup)
  have absent: "name \<noteq> CanonicalMIMEHeaderKey name \<longrightarrow> ?h name = None"
    by (simp add: copyHeaders_lookup forwarded_noncanonical)
  have every: "p_Header (snd call) (CanonicalMIMEHeaderKey name) \<noteq> None
            \<and> (name \<noteq> CanonicalMIMEHeaderKey name \<longrightarrow> p_Header (snd call) name = None)"
    if "call \<in> set (out_calls (blofinProxy env w r))
                   \<union> set (out_calls (fst (blofinProxyOptimized env n w r)))" for call
  proof -
    have "p_Header (snd call) = ?h"
      using that blofinProxy_calls(3) blofinProxyOptimized_calls(3) by blast
    then show ?thesis
      using present absent by simp
  qed
  have form: "mimeCanonicalForm True (CanonicalMIMEHeaderKey name)"
    using assms(4) by (simp add: CanonicalMIMEHeaderKey_def canonLoop_canonical_form)
  have same: "map lowerByte (CanonicalMIMEHeaderKey name) = map lowerByte name"
    by (simp add: CanonicalMIMEHeaderKey_def lower_canonLoop)
  have single: "map (\<lambda>call. p_Header (snd call) (CanonicalMIMEHeaderKey name) \<noteq> None
                       \<and> (name = CanonicalMIMEHeaderKey name \<or> p_Header (snd call) name = None))
            (out_calls (blofinProxy env w r)) = [True]
          \<and> map (\<lambda>call. p_Header (snd call) (CanonicalMIMEHeaderKey name) \<noteq> None
                       \<and> (name = CanonicalMIMEHeaderKey name \<or> p_Header (snd call) name = None))
              (out_calls (fst (blofinProxyOptimized env n w r))) = [True]"
    if route: "r_Path r = ''/api/'' @ X" "pathSafe X" "querySafe (r_RawQuery r)"
      "validMethod (r_Method r)"
  proof -
    obtain u where "out_calls (blofinProxy env w r) =
       [(\<lparr>Timeout = 30 * time_Second\<rparr>,
         \<lparr>p_ctx = Background, p_Method = r_Method r, p_URL = u,
          p_Header = ?h, p_Body = r_Body r\<rparr>)]"
      using blofinProxy_dispatch [OF route] by blast
    moreover obtain u' where "out_calls (fst (blofinProxyOptimized env n w r)) =
       [(httpClient,
         \<lparr>p_ctx = WithTimeout RequestContext (25 * time_Second), p_Method = r_Method r,
          p_URL = u', p_Header = ?h, p_Body = r_Body r\<rparr>)]"
      using blofinProxyOptimized_dispatch [OF route] by blast
    ultimately show ?thesis
      using present absent by auto
  qed
  show ?thesis
    using every form same single by blast
qed

theorem forwarded_header_names_canonical_witness:
  "(''x-request-id'', [''42'']) \<in> set (r_Header (exampleRequest ''GET'' ''/api/v1/market/tickers''))
   \<and> list_all validHeaderFieldByte ''x-request-id''
   \<and> CanonicalMIMEHeaderKey ''x-request-id'' = ''X-Request-Id''
   \<and> map (\<lambda>call. p_Header (snd call) ''X-Request-Id'' \<noteq> None
                \<and> (''x-request-id'' = ''X-Request-Id'' \<or> p_Header (snd call) ''x-request-id'' = None))
        (out_calls (blofinProxy answeringEnv newResponseWriter
           (exampleRequest ''GET'' ''/api/v1/market/tickers''))) = [True]
   \<and> map (\<lambda>call. p_Header (snd call) ''X-Request-Id'' \<noteq> None
                \<and> (''x-request-id'' = ''X-Request-Id'' \<or> p_Header (snd call) ''x-request-id'' = None))
        (out_calls (fst (blofinProxyOptimized answeringEnv 0 newResponseWriter
           (exampleRequest ''GET'' ''/api/v1/market/tickers'')))) = [True]"
proof -
  let ?r = "exampleRequest ''GET'' ''/api/v1/market/tickers''"
  have entry: "(''x-request-id'', [''42'']) \<in> set (r_Header ?r)"
    by (simp add: exampleRequest_def)
  have allowed: "\<not> denylisted ''x-request-id''"
    by code_simp
  have filled: "[''42''] \<noteq> []"
    by simp
  have token: "list_all validHeaderFieldByte ''x-request-id''"
    by code_simp
  have canon: "CanonicalMIMEHeaderKey ''x-request-id'' = ''X-Request-Id''"
    by code_simp
  have route: "r_Path ?r = ''/api/'' @ ''v1/market/tickers''"
    by (simp add: exampleRequest_def)
  have safe: "pathSafe ''v1/market/tickers''"
    by code_simp
  have qsafe: "querySafe (r_RawQuery ?r)"
    by code_simp
  have verb: "validMethod (r_Method ?r)"
    by code_simp
  from forwarded_header_names_canonical [OF entry allowed filled token,
      of answeringEnv newResponseWriter 0 "''v1/market/tickers''"]
    route safe qsafe verb
  have "map (\<lambda>call. p_Header (snd call) (CanonicalMIMEHeaderKey ''x-request-id'') \<noteq> None
                \<and> (''x-request-id'' = CanonicalMIMEHeaderKey ''x-request-id''
                    \<or> p_Header (snd call) ''x-request-id'' = None))
        (out_calls (blofinProxy answeringEnv newResponseWriter ?r)) = [True]
      \<and> map (\<lambda>call. p_Header (snd call) (CanonicalMIMEHeaderKey ''x-request-id'') \<noteq> None
                \<and> (''x-request-id'' = CanonicalMIMEHeaderKey ''x-request-id''
                    \<or> p_Header (snd call) ''x-request-id'' = None))
        (out_calls (fst (blofinProxyOptimized answeringEnv 0 newResponseWriter ?r))) = [True]"
    by blast
  then show ?thesis
    using entry token canon by (simp only: simp_thms)
qed
section \<open>URL reconstruction\<close>

text \<open>
  What the second parse does to a query that is not safe. A number sign in the query
  ends the query of the outbound URL and starts a fragment; a control byte in the query
  makes \<open>http.NewRequest\<close> fail, so the client gets 500 and no upstream call is made.
\<close>

lemma query_with_number_sign:
  "map (\<lambda>call. (RawQuery (p_URL (snd call)), Fragment (p_URL (snd call))))
     (out_calls (blofinProxy answeringEnv newResponseWriter
        ((exampleRequest ''GET'' ''/api/v1'')\<lparr>r_RawQuery := ''a#b''\<rparr>))) = [(''a'', ''b'')]
   \<and> map (\<lambda>call. (RawQuery (p_URL (snd call)), Fragment (p_URL (snd call))))
     (out_calls (fst (blofinProxyOptimized answeringEnv 0 newResponseWriter
        ((exampleRequest ''GET'' ''/api/v1'')\<lparr>r_RawQuery := ''a#b''\<rparr>)))) = [(''a'', ''b'')]"
  by code_simp

lemma query_with_control_byte:
  "status (finish (out_w (blofinProxy answeringEnv newResponseWriter
        ((exampleRequest ''GET'' ''/api/v1'')\<lparr>r_RawQuery := [CHR ''a'', CHR 0x0A]\<rparr>)))) = 500
   \<and> out_calls (blofinProxy answeringEnv newResponseWriter
        ((exampleRequest ''GET'' ''/api/v1'')\<lparr>r_RawQuery := [CHR ''a'', CHR 0x0A]\<rparr>)) = []
   \<and> status (finish (out_w (fst (blofinProxyOptimized answeringEnv 0 newResponseWriter
        ((exampleRequest ''GET'' ''/api/v1'')\<lparr>r_RawQuery := [CHR ''a'', CHR 0x0A]\<rparr>))))) = 500
   \<and> out_calls (fst (blofinProxyOptimized answeringEnv 0 newResponseWriter
        ((exampleRequest ''GET'' ''/api/v1'')\<lparr>r_RawQuery := [CHR ''a'', CHR 0x0A]\<rparr>))) = []"
  by code_simp



section \<open>Routing\<close>

text \<open>
  C10. In both variants only a request whose path begins with \<open>/api/\<close> reaches the
  forwarder: an upstream call, a log line of the simple variant or a step of the
  optimized variant's counter all imply that prefix. A request for exactly \<open>/api\<close> makes
  no upstream call in either variant and leaves the counter alone, and the simple
  variant's handlers answer it with 404 (a preflight request is answered by the CORS
  middleware before any handler, for every path). A request whose path does begin with
  \<open>/api/\<close> is forwarded: for a path in cleaned form, and a path, a query and a method
  that can be built into a request, each variant makes one upstream call.
\<close>

theorem only_api_slash_paths_reach_forwarder:
  "(out_calls (serveSimple env r) \<noteq> [] \<or> out_log (serveSimple env r) \<noteq> []
      \<longrightarrow> strings_HasPrefix (r_Path r) ''/api/'')
   \<and> (out_calls (fst (serveOptimized env n r)) \<noteq> [] \<or> snd (serveOptimized env n r) \<noteq> n
      \<longrightarrow> strings_HasPrefix (r_Path r) ''/api/'')
   \<and> (r_Path r = ''/api'' \<longrightarrow>
        out_calls (serveSimple env r) = []
        \<and> out_calls (fst (serveOptimized env n r)) = []
        \<and> snd (serveOptimized env n r) = n
        \<and> (r_Method r \<noteq> ''OPTIONS'' \<longrightarrow> status (finish (out_w (serveSimple env r))) = 404))
   \<and> (r_Path r = ''/api/'' @ X \<and> cleanPath (r_Path r) = r_Path r \<and> pathSafe X
        \<and> querySafe (r_RawQuery r) \<and> validMethod (r_Method r) \<and> r_Method r \<noteq> ''OPTIONS'' \<longrightarrow>
        length (out_calls (serveSimple env r)) = 1
        \<and> length (out_calls (fst (serveOptimized env n r))) = 1)"
proof -
  have simple: "out_calls (serveSimple env r) \<noteq> [] \<or> out_log (serveSimple env r) \<noteq> []
      \<longrightarrow> strings_HasPrefix (r_Path r) ''/api/''"
    using serveSimple_forwarder_reached(1) by blast
  have optimized: "out_calls (fst (serveOptimized env n r)) \<noteq> [] \<or> snd (serveOptimized env n r) \<noteq> n
      \<longrightarrow> strings_HasPrefix (r_Path r) ''/api/''"
    using serveOptimized_forwarder_reached(1) by blast
  have exact: "out_calls (serveSimple env r) = []
        \<and> out_calls (fst (serveOptimized env n r)) = []
        \<and> snd (serveOptimized env n r) = n
        \<and> (r_Method r \<noteq> ''OPTIONS'' \<longrightarrow> status (finish (out_w (serveSimple env r))) = 404)"
    if route: "r_Path r = ''/api''"
  proof -
    have noprefix: "\<not> strings_HasPrefix (r_Path r) ''/api/''"
      by (simp add: route strings_HasPrefix_def)
    have s1: "out_calls (serveSimple env r) = []"
      using simple noprefix by blast
    have o1: "serveOptimized env n r = (libraryOutcome (redirectResponse r ''/api/''), n)"
      using route by (rule optimized_api_redirect)
    have s2: "status (finish (out_w (serveSimple env r))) = 404" if "r_Method r \<noteq> ''OPTIONS''"
      using that noprefix
      by (simp add: simple_api_root [OF route] corsMiddleware_def rootHandler_def Let_def route
          http_NotFound_def finish_http_Error)
    show ?thesis
      using s1 s2 o1 by simp
  qed
  have forwarded: "length (out_calls (serveSimple env r)) = 1
        \<and> length (out_calls (fst (serveOptimized env n r))) = 1"
    if "r_Path r = ''/api/'' @ X" and "cleanPath (r_Path r) = r_Path r" and "pathSafe X"
      and "querySafe (r_RawQuery r)" and "validMethod (r_Method r)" and "r_Method r \<noteq> ''OPTIONS''"
    using served_dispatch [OF that] by simp
  show ?thesis
    using simple optimized exact forwarded by blast
qed

theorem only_api_slash_paths_reach_forwarder_witness:
  "out_calls (serveSimple answeringEnv (exampleRequest ''GET'' ''/api'')) = []
   \<and> out_calls (fst (serveOptimized answeringEnv 7 (exampleRequest ''GET'' ''/api''))) = []
   \<and> snd (serveOptimized answeringEnv 7 (exampleRequest ''GET'' ''/api'')) = 7
   \<and> status (finish (out_w (serveSimple answeringEnv (exampleRequest ''GET'' ''/api'')))) = 404
   \<and> length (out_calls (serveSimple answeringEnv (exampleRequest ''GET'' ''/api/v1''))) = 1
   \<and> length (out_calls (fst (serveOptimized answeringEnv 7 (exampleRequest ''GET'' ''/api/v1'')))) = 1
   \<and> strings_HasPrefix (r_Path (exampleRequest ''GET'' ''/api/v1'')) ''/api/''"
proof -
  let ?r = "exampleRequest ''GET'' ''/api/v1''"
  have exact: "r_Path (exampleRequest ''GET'' ''/api'') = ''/api''"
    by (simp add: exampleRequest_def)
  have verb: "r_Method (exampleRequest ''GET'' ''/api'') \<noteq> ''OPTIONS''"
    by (simp add: exampleRequest_def)
  have route: "r_Path ?r = ''/api/'' @ ''v1''"
    by (simp add: exampleRequest_def)
  have clean: "cleanPath (r_Path ?r) = r_Path ?r"
    by code_simp
  have safe: "pathSafe ''v1''"
    by code_simp
  have qsafe: "querySafe (r_RawQuery ?r)"
    by code_simp
  have valid: "validMethod (r_Method ?r)"
    by code_simp
  have routed: "r_Method ?r \<noteq> ''OPTIONS''"
    by (simp add: exampleRequest_def)
  have pre: "strings_HasPrefix (r_Path ?r) ''/api/''"
    by code_simp
  from only_api_slash_paths_reach_forwarder [of answeringEnv "exampleRequest ''GET'' ''/api''" 7]
    only_api_slash_paths_reach_forwarder [of answeringEnv ?r 7 "''v1''"]
  have ?thesis
    using exact verb route clean safe qsafe valid routed pre by blast
  then show ?thesis .
qed
section \<open>Cross-origin policy\<close>

text \<open>
  C4, as the code has it. A request with method \<open>OPTIONS\<close> never reaches the forwarder,
  whatever its path: no upstream call, no forwarder log line, no step of the counter.
  When the multiplexer hands it to a registered handler, the answer is 200 with an empty
  body and the four CORS headers. In the simple variant that is every path in cleaned
  form (the pattern \<open>/\<close> catches all of them); in the optimized variant it is
  \<open>/health\<close>, \<open>/metrics\<close> and the cleaned paths under \<open>/api/\<close>.
\<close>

theorem preflight_short_circuit:
  assumes "r_Method r = ''OPTIONS''"
  shows "out_calls (serveSimple env r) = [] \<and> out_log (serveSimple env r) = []
       \<and> out_calls (fst (serveOptimized env n r)) = [] \<and> snd (serveOptimized env n r) = n
       \<and> (cleanPath (r_Path r) = r_Path r
            \<longrightarrow> preflightResponse (finish (out_w (serveSimple env r))))
       \<and> (cleanPath (r_Path r) = r_Path r
            \<and> (r_Path r = ''/health'' \<or> r_Path r = ''/metrics''
                 \<or> strings_HasPrefix (r_Path r) ''/api/'')
            \<longrightarrow> preflightResponse (finish (out_w (fst (serveOptimized env n r)))))"
proof -
  have quiet1: "out_calls (serveSimple env r) = [] \<and> out_log (serveSimple env r) = []"
    using serveSimple_forwarder_reached(2) [of env r] assms by blast
  have quiet2: "out_calls (fst (serveOptimized env n r)) = [] \<and> snd (serveOptimized env n r) = n"
    using serveOptimized_forwarder_reached(2) [of env n r] assms by blast
  have simple: "preflightResponse (finish (out_w (serveSimple env r)))"
    if "cleanPath (r_Path r) = r_Path r"
    by (simp add: serveSimple_clean [OF that] corsMiddleware_options [OF assms] preflight_fixed)
  have optimized: "preflightResponse (finish (out_w (fst (serveOptimized env n r))))"
    if "cleanPath (r_Path r) = r_Path r"
      and "r_Path r = ''/health'' \<or> r_Path r = ''/metrics'' \<or> strings_HasPrefix (r_Path r) ''/api/''"
    using that(2)
    by (auto simp: serveOptimized_clean [OF that(1)] corsMiddlewareOpt_options [OF assms]
        preflight_fixed)
  show ?thesis
    using quiet1 quiet2 simple optimized by blast
qed

theorem preflight_short_circuit_witness:
  "r_Method (exampleRequest ''OPTIONS'' ''/api/v1/trade/order'') = ''OPTIONS''
   \<and> cleanPath ''/api/v1/trade/order'' = ''/api/v1/trade/order''
   \<and> out_calls (serveSimple answeringEnv (exampleRequest ''OPTIONS'' ''/api/v1/trade/order'')) = []
   \<and> snd (serveOptimized answeringEnv 7 (exampleRequest ''OPTIONS'' ''/api/v1/trade/order'')) = 7
   \<and> preflightResponse (finish (out_w (serveSimple answeringEnv
        (exampleRequest ''OPTIONS'' ''/api/v1/trade/order''))))
   \<and> preflightResponse (finish (out_w (fst (serveOptimized answeringEnv 7
        (exampleRequest ''OPTIONS'' ''/api/v1/trade/order'')))))"
proof -
  let ?r = "exampleRequest ''OPTIONS'' ''/api/v1/trade/order''"
  have verb: "r_Method ?r = ''OPTIONS''"
    by (simp add: exampleRequest_def)
  have path: "r_Path ?r = ''/api/v1/trade/order''"
    by (simp add: exampleRequest_def)
  have clean: "cleanPath ''/api/v1/trade/order'' = ''/api/v1/trade/order''"
    by code_simp
  have under: "strings_HasPrefix ''/api/v1/trade/order'' ''/api/''"
    by code_simp
  from preflight_short_circuit [OF verb, of answeringEnv 7] verb path clean under
  show ?thesis by simp
qed

text \<open>
  C4 as it is stated holds regardless of path. The optimized variant registers no
  pattern that matches \<open>/foo\<close>: the multiplexer answers the preflight request itself,
  with 404, a body and no CORS header.
\<close>

theorem preflight_unrouted_counterexample:
  "r_Method (exampleRequest ''OPTIONS'' ''/foo'') = ''OPTIONS''
   \<and> status (finish (out_w (fst (serveOptimized answeringEnv 7 (exampleRequest ''OPTIONS'' ''/foo''))))) = 404
   \<and> body (finish (out_w (fst (serveOptimized answeringEnv 7 (exampleRequest ''OPTIONS'' ''/foo'')))))
       = ''404 page not found'' @ newline
   \<and> Header_Get (headers (finish (out_w (fst (serveOptimized answeringEnv 7
        (exampleRequest ''OPTIONS'' ''/foo''))))))
       ''Access-Control-Allow-Origin'' = []"
  by code_simp

text \<open>
  C8, as the code has it. Every response that a registered handler produces carries the
  allow-origin wildcard and declares the method set: in the simple variant every request
  with a path in cleaned form, which includes the 404 for unknown routes and the
  forwarder's 400, 500 and 502; in the optimized variant \<open>/health\<close>, \<open>/metrics\<close> and
  the cleaned paths under \<open>/api/\<close>, which includes the forwarder's 400, 500 and 502.
\<close>

theorem cors_headers_on_handler_responses:
  "(cleanPath (r_Path r) = r_Path r
      \<longrightarrow> corsDeclared (headers (finish (out_w (serveSimple env r)))))
   \<and> (cleanPath (r_Path r) = r_Path r
        \<and> (r_Path r = ''/health'' \<or> r_Path r = ''/metrics''
             \<or> strings_HasPrefix (r_Path r) ''/api/'')
      \<longrightarrow> corsDeclared (headers (finish (out_w (fst (serveOptimized env n r))))))"
proof -
  have simple: "corsDeclared (headers (finish (out_w (serveSimple env r))))"
    if "cleanPath (r_Path r) = r_Path r"
    by (simp add: serveSimple_clean [OF that] cors_simple_handlers)
  have optimized: "corsDeclared (headers (finish (out_w (fst (serveOptimized env n r)))))"
    if "cleanPath (r_Path r) = r_Path r"
      and "r_Path r = ''/health'' \<or> r_Path r = ''/metrics'' \<or> strings_HasPrefix (r_Path r) ''/api/''"
    using that(2)
    by (auto simp: serveOptimized_clean [OF that(1)] cors_optimized_handlers)
  show ?thesis
    using simple optimized by blast
qed

theorem cors_headers_on_handler_responses_witness:
  "cleanPath ''/nope'' = ''/nope''
   \<and> status (finish (out_w (serveSimple failingEnv (exampleRequest ''GET'' ''/nope'')))) = 404
   \<and> corsDeclared (headers (finish (out_w (serveSimple failingEnv (exampleRequest ''GET'' ''/nope'')))))
   \<and> cleanPath ''/api/v1'' = ''/api/v1''
   \<and> status (finish (out_w (fst (serveOptimized failingEnv 7 (exampleRequest ''GET'' ''/api/v1''))))) = 502
   \<and> corsDeclared (headers (finish (out_w (fst (serveOptimized failingEnv 7
        (exampleRequest ''GET'' ''/api/v1''))))))"
proof -
  have p1: "r_Path (exampleRequest ''GET'' ''/nope'') = ''/nope''"
    and p2: "r_Path (exampleRequest ''GET'' ''/api/v1'') = ''/api/v1''"
    by (simp_all add: exampleRequest_def)
  have c1: "cleanPath ''/nope'' = ''/nope''" and c2: "cleanPath ''/api/v1'' = ''/api/v1''"
    by code_simp+
  have under: "strings_HasPrefix ''/api/v1'' ''/api/''"
    by code_simp
  have s1: "status (finish (out_w (serveSimple failingEnv (exampleRequest ''GET'' ''/nope'')))) = 404"
    by code_simp
  have s2: "status (finish (out_w (fst (serveOptimized failingEnv 7 (exampleRequest ''GET'' ''/api/v1''))))) = 502"
    by code_simp
  from cors_headers_on_handler_responses [of "exampleRequest ''GET'' ''/nope''" failingEnv 7]
    cors_headers_on_handler_responses [of "exampleRequest ''GET'' ''/api/v1''" failingEnv 7]
    p1 p2 c1 c2 under s1 s2
  show ?thesis by simp
qed

text \<open>
  C8 as it is stated covers every response, the 404 for unknown routes included. In the
  optimized variant an unknown route is answered by the multiplexer, not by a handler
  behind the middleware, and the 404 has no allow-origin header.
\<close>

theorem cors_unknown_route_counterexample:
  "status (finish (out_w (fst (serveOptimized answeringEnv 7 (exampleRequest ''GET'' ''/nope''))))) = 404
   \<and> Header_Get (headers (finish (out_w (fst (serveOptimized answeringEnv 7
        (exampleRequest ''GET'' ''/nope''))))))
       ''Access-Control-Allow-Origin'' = []
   \<and> \<not> corsDeclared (headers (finish (out_w (fst (serveOptimized answeringEnv 7
        (exampleRequest ''GET'' ''/nope''))))))"
  by code_simp

section \<open>Dispatch failure\<close>

text \<open>
  C5, as the code has it. When the upstream call of a proxied request fails, the client
  receives 502 with the fixed body \<open>Proxy request failed\<close>, whatever the error is. The
  optimized variant logs the error exactly when the environment variable \<open>DEBUG\<close> is
  \<open>true\<close>; the simple variant has no debug flag and logs the error always.
\<close>

theorem dispatch_failure_gives_502:
  assumes "upstream env (fst call) (snd call) = Inl err"
  shows "(out_calls (serveSimple env r) = [call] \<longrightarrow>
            status (finish (out_w (serveSimple env r))) = 502
            \<and> body (finish (out_w (serveSimple env r))) = ''Proxy request failed'' @ newline
            \<and> ProxyRequestFailed err \<in> set (out_log (serveSimple env r)))
       \<and> (out_calls (fst (serveOptimized env n r)) = [call] \<longrightarrow>
            status (finish (out_w (fst (serveOptimized env n r)))) = 502
            \<and> body (finish (out_w (fst (serveOptimized env n r)))) = ''Proxy request failed'' @ newline
            \<and> (ProxyRequestFailed err \<in> set (out_log (fst (serveOptimized env n r)))
                 \<longleftrightarrow> debugEnabled env))"
proof -
  let ?w = "setCorsHeaders newResponseWriter"
  have simple: "status (finish (out_w (serveSimple env r))) = 502
      \<and> body (finish (out_w (serveSimple env r))) = ''Proxy request failed'' @ newline
      \<and> ProxyRequestFailed err \<in> set (out_log (serveSimple env r))"
    if calls: "out_calls (serveSimple env r) = [call]"
  proof -
    have eq: "serveSimple env r =
        (blofinProxy env ?w r)\<lparr>out_log := ApiRouteDetected (r_Path r) # out_log (blofinProxy env ?w r)\<rparr>"
      using calls by (intro serveSimple_forwarded) simp
    then have "out_calls (blofinProxy env ?w r) = [call]"
      using calls by simp
    note failed = blofinProxy_failed [OF this assms]
    show ?thesis
      by (simp add: eq failed finish_http_Error)
  qed
  have optimized: "status (finish (out_w (fst (serveOptimized env n r)))) = 502
      \<and> body (finish (out_w (fst (serveOptimized env n r)))) = ''Proxy request failed'' @ newline
      \<and> (ProxyRequestFailed err \<in> set (out_log (fst (serveOptimized env n r)))
           \<longleftrightarrow> debugEnabled env)"
    if calls: "out_calls (fst (serveOptimized env n r)) = [call]"
  proof -
    have eq: "serveOptimized env n r = blofinProxyOptimized env n ?w r"
      using calls by (intro serveOptimized_forwarder_reached(3)) simp
    then have "out_calls (fst (blofinProxyOptimized env n ?w r)) = [call]"
      using calls by simp
    note failed = blofinProxyOptimized_failed [OF this assms]
    show ?thesis
      by (simp add: eq failed finish_http_Error)
  qed
  show ?thesis
    using simple optimized by blast
qed

theorem dispatch_failure_gives_502_witness:
  "length (out_calls (fst (serveOptimized failingEnv 7 (exampleRequest ''GET'' ''/api/v1'')))) = 1
   \<and> status (finish (out_w (fst (serveOptimized failingEnv 7 (exampleRequest ''GET'' ''/api/v1''))))) = 502
   \<and> body (finish (out_w (fst (serveOptimized failingEnv 7 (exampleRequest ''GET'' ''/api/v1'')))))
       = ''Proxy request failed'' @ newline
   \<and> \<not> debugEnabled failingEnv
   \<and> ProxyRequestFailed ''dial tcp: i/o timeout''
       \<notin> set (out_log (fst (serveOptimized failingEnv 7 (exampleRequest ''GET'' ''/api/v1''))))"
proof -
  let ?calls = "out_calls (fst (serveOptimized failingEnv 7 (exampleRequest ''GET'' ''/api/v1'')))"
  have one: "length ?calls = 1"
    by code_simp
  then have single: "?calls = [hd ?calls]"
    by (cases ?calls) simp_all
  have fails: "upstream failingEnv (fst (hd ?calls)) (snd (hd ?calls)) = Inl ''dial tcp: i/o timeout''"
    by (simp add: failingEnv_def)
  have quiet: "\<not> debugEnabled failingEnv"
    by code_simp
  from dispatch_failure_gives_502 [OF fails, of "exampleRequest ''GET'' ''/api/v1''" 7]
    single one quiet
  show ?thesis by simp
qed

text \<open>
  C5 as it is stated has the error detail logged only when the debug flag is enabled.
  The simple variant logs it with the flag unset.
\<close>

theorem dispatch_failure_log_counterexample:
  "\<not> debugEnabled failingEnv
   \<and> status (finish (out_w (serveSimple failingEnv (exampleRequest ''GET'' ''/api/v1'')))) = 502
   \<and> out_log (serveSimple failingEnv (exampleRequest ''GET'' ''/api/v1''))
       = [ApiRouteDetected ''/api/v1'', ProxyRequestFailed ''dial tcp: i/o timeout'']"
  by code_simp

section \<open>The request counter\<close>

text \<open>
  C6, as the code has it. The optimized variant increments the shared counter exactly
  once for every request that enters the forwarder, as the forwarder's first step and
  whatever the outcome, the failures before dispatch (400 and 500) included, and it
  leaves the counter unchanged for every other request: the health and metrics
  handlers, the preflight answer of the middleware, and the redirects and 404 of the
  multiplexer do not touch it. So the counter after a request is the counter before it
  plus one exactly when the request enters the forwarder, and every request that
  reaches upstream dispatch has entered the forwarder. The simple variant has no
  counter.
\<close>

theorem counter_incremented_on_forwarder_entry:
  "snd (blofinProxyOptimized env n w r) = n + 1
   \<and> snd (serveOptimized env n r) = (if entersForwarder r then n + 1 else n)
   \<and> (out_calls (fst (serveOptimized env n r)) \<noteq> [] \<longrightarrow>
        entersForwarder r \<and> snd (serveOptimized env n r) = n + 1)
   \<and> snd (corsMiddlewareOpt healthHandlerOpt env n w r) = n
   \<and> snd (corsMiddlewareOpt metricsHandler env n w r) = n"
proof -
  have entered: "entersForwarder r \<and> snd (serveOptimized env n r) = n + 1"
    if "out_calls (fst (serveOptimized env n r)) \<noteq> []"
    using serveOptimized_calls_enter [OF that] by (simp add: serveOptimized_count)
  show ?thesis
    using entered by (simp add: blofinProxyOptimized_count serveOptimized_count)
qed

theorem counter_incremented_on_forwarder_entry_witness:
  "entersForwarder (exampleRequest ''GET'' ''/api/v1'')
   \<and> out_calls (fst (serveOptimized failingEnv 7 (exampleRequest ''GET'' ''/api/v1''))) \<noteq> []
   \<and> snd (serveOptimized failingEnv 7 (exampleRequest ''GET'' ''/api/v1'')) = 8
   \<and> snd (blofinProxyOptimized failingEnv 7 newResponseWriter (exampleRequest ''GET'' ''/api/v1'')) = 8
   \<and> \<not> entersForwarder (exampleRequest ''GET'' ''/health'')
   \<and> snd (serveOptimized failingEnv 7 (exampleRequest ''GET'' ''/health'')) = 7
   \<and> \<not> entersForwarder (exampleRequest ''OPTIONS'' ''/api/v1'')
   \<and> snd (serveOptimized failingEnv 7 (exampleRequest ''OPTIONS'' ''/api/v1'')) = 7"
proof -
  have enters: "entersForwarder (exampleRequest ''GET'' ''/api/v1'')"
    by code_simp
  have health: "\<not> entersForwarder (exampleRequest ''GET'' ''/health'')"
    by code_simp
  have preflight: "\<not> entersForwarder (exampleRequest ''OPTIONS'' ''/api/v1'')"
    by code_simp
  have dispatched: "out_calls (fst (serveOptimized failingEnv 7 (exampleRequest ''GET'' ''/api/v1''))) \<noteq> []"
    by code_simp
  from counter_incremented_on_forwarder_entry
      [of failingEnv 7 newResponseWriter "exampleRequest ''GET'' ''/api/v1''"]
    counter_incremented_on_forwarder_entry
      [of failingEnv 7 newResponseWriter "exampleRequest ''GET'' ''/health''"]
    counter_incremented_on_forwarder_entry
      [of failingEnv 7 newResponseWriter "exampleRequest ''OPTIONS'' ''/api/v1''"]
    enters health preflight dispatched
  show ?thesis by simp
qed

text \<open>
  C6 as it is stated has a request that fails before dispatch leave the counter alone.
  A request whose path cannot be built into a URL is answered with 400, makes no
  upstream call, and has moved the counter from 7 to 8.
\<close>

theorem counter_before_dispatch_counterexample:
  "status (finish (out_w (fst (serveOptimized answeringEnv 7 (exampleRequest ''GET'' ''/api/%zz''))))) = 400
   \<and> out_calls (fst (serveOptimized answeringEnv 7 (exampleRequest ''GET'' ''/api/%zz''))) = []
   \<and> snd (serveOptimized answeringEnv 7 (exampleRequest ''GET'' ''/api/%zz'')) = 8"
  by code_simp
section \<open>Deadlines and cancellation\<close>

text \<open>
  C7, as the code has it. Every upstream call is bounded by a fixed ceiling between 25
  and 30 seconds. In the optimized variant the call carries
  \<open>context.WithTimeout(r.Context(), 25 s)\<close> under a client timeout of 30 seconds: its
  context derives from the inbound request's context, so cancelling the inbound request
  cancels the call, and the bound is 25 seconds. In the simple variant the call carries
  the background context and only the client's timeout of 30 seconds bounds it: its
  context does not derive from the inbound request's.
\<close>

theorem upstream_call_deadline:
  "(call \<in> set (out_calls (fst (serveOptimized env n r))) \<longrightarrow>
      p_ctx (snd call) = WithTimeout RequestContext (25 * time_Second)
      \<and> derivesFrom (p_ctx (snd call)) RequestContext
      \<and> callBound (fst call) (snd call) = Some (25 * time_Second))
   \<and> (call \<in> set (out_calls (serveSimple env r)) \<longrightarrow>
      p_ctx (snd call) = Background
      \<and> \<not> derivesFrom (p_ctx (snd call)) RequestContext
      \<and> callBound (fst call) (snd call) = Some (30 * time_Second))
   \<and> (call \<in> set (out_calls (fst (serveOptimized env n r))) \<union> set (out_calls (serveSimple env r))
      \<longrightarrow> (case callBound (fst call) (snd call) of
             None \<Rightarrow> False
           | Some d \<Rightarrow> 25 * time_Second \<le> d \<and> d \<le> 30 * time_Second))"
proof -
  have optimized: "p_ctx (snd call) = WithTimeout RequestContext (25 * time_Second)
      \<and> derivesFrom (p_ctx (snd call)) RequestContext
      \<and> callBound (fst call) (snd call) = Some (25 * time_Second)"
    if "call \<in> set (out_calls (fst (serveOptimized env n r)))"
  proof -
    note facts = blofinProxyOptimized_calls [OF serveOptimized_call [OF that]]
    show ?thesis
      by (simp add: facts callBound_def httpClient_def time_Second_def)
  qed
  have simple: "p_ctx (snd call) = Background
      \<and> \<not> derivesFrom (p_ctx (snd call)) RequestContext
      \<and> callBound (fst call) (snd call) = Some (30 * time_Second)"
    if "call \<in> set (out_calls (serveSimple env r))"
  proof -
    note facts = blofinProxy_calls [OF serveSimple_call [OF that]]
    show ?thesis
      by (simp add: facts callBound_def time_Second_def)
  qed
  have bounded: "(case callBound (fst call) (snd call) of
             None \<Rightarrow> False
           | Some d \<Rightarrow> 25 * time_Second \<le> d \<and> d \<le> 30 * time_Second)"
    if "call \<in> set (out_calls (fst (serveOptimized env n r))) \<union> set (out_calls (serveSimple env r))"
    using that optimized simple by (auto simp: time_Second_def)
  show ?thesis
    using optimized simple bounded by blast
qed

theorem upstream_call_deadline_witness:
  "length (out_calls (fst (serveOptimized answeringEnv 7 (exampleRequest ''GET'' ''/api/v1'')))) = 1
   \<and> derivesFrom
        (p_ctx (snd (hd (out_calls (fst (serveOptimized answeringEnv 7
           (exampleRequest ''GET'' ''/api/v1'')))))))
        RequestContext
   \<and> callBound
        (fst (hd (out_calls (fst (serveOptimized answeringEnv 7 (exampleRequest ''GET'' ''/api/v1''))))))
        (snd (hd (out_calls (fst (serveOptimized answeringEnv 7 (exampleRequest ''GET'' ''/api/v1''))))))
       = Some (25 * time_Second)"
proof -
  let ?calls = "out_calls (fst (serveOptimized answeringEnv 7 (exampleRequest ''GET'' ''/api/v1'')))"
  have one: "length ?calls = 1"
    by code_simp
  then have "hd ?calls \<in> set ?calls"
    by (cases ?calls) simp_all
  with upstream_call_deadline [of "hd ?calls" answeringEnv 7 "exampleRequest ''GET'' ''/api/v1''"] one
  show ?thesis by simp
qed

text \<open>
  C7 as it is stated has every outbound call carry a deadline derived from the inbound
  request's context. The simple variant builds its request with \<open>http.NewRequest\<close>:
  the call runs under the background context, which the inbound request cannot cancel.
\<close>

theorem simple_call_context_counterexample:
  "length (out_calls (serveSimple answeringEnv (exampleRequest ''GET'' ''/api/v1''))) = 1
   \<and> p_ctx (snd (hd (out_calls (serveSimple answeringEnv (exampleRequest ''GET'' ''/api/v1'')))))
       = Background
   \<and> \<not> derivesFrom
        (p_ctx (snd (hd (out_calls (serveSimple answeringEnv (exampleRequest ''GET'' ''/api/v1''))))))
        RequestContext"
  by code_simp

end
